theory Spec2Isabelle
  imports Complex_Main
begin

section \<open>Errors\<close>

text \<open>
  The exceptions the modelled code can raise: Python's \<open>IndexError\<close>, \<open>ValueError\<close>
  and \<open>TypeError\<close>, and TensorFlow's \<open>InvalidArgumentError\<close> (an index out of range in
  a lookup, operands whose shapes do not agree).  A computation that can raise returns
  \<open>error + 'r\<close>, with \<open>Inl\<close> for the exception.
\<close>

datatype error = IndexError | ValueError | TypeError | InvalidArgumentError

fun map_err :: "('x \<Rightarrow> error + 'y) \<Rightarrow> 'x list \<Rightarrow> error + 'y list" where
  "map_err f [] = Inr []"
| "map_err f (x # xs) =
     (case f x of
        Inl e \<Rightarrow> Inl e
      | Inr y \<Rightarrow> (case map_err f xs of Inl e \<Rightarrow> Inl e | Inr ys \<Rightarrow> Inr (y # ys)))"

section \<open>Tensors of any rank and \<open>time_major\<close>\<close>

text \<open>
  A tensor is its shape and its elements in row-major order.  \<open>indices\<close> lists the
  multi-indices of a shape in row-major order, \<open>strides\<close> gives the distance in the
  element list between neighbours along each axis, and \<open>offset\<close> is the position of a
  multi-index in the element list.
\<close>

record 'a tensor =
  shape :: "nat list"
  entries :: "'a list"

definition wf_tensor :: "'a tensor \<Rightarrow> bool" where
  "wf_tensor a = (length (entries a) = prod_list (shape a))"

fun indices :: "nat list \<Rightarrow> nat list list" where
  "indices [] = [[]]"
| "indices (d # ds) = concat (map (\<lambda>i. map ((#) i) (indices ds)) [0..<d])"

fun strides :: "nat list \<Rightarrow> nat list" where
  "strides [] = []"
| "strides (d # ds) = prod_list ds # strides ds"

definition offset :: "nat list \<Rightarrow> nat list \<Rightarrow> nat" where
  "offset shp idx = sum_list (map2 (*) idx (strides shp))"

text \<open>
  \<open>tf.transpose(a, perm)\<close>: axis \<open>k\<close> of the result is axis \<open>perm[k]\<close> of \<open>a\<close>, so the
  element of the result at \<open>j\<close> is the element of \<open>a\<close> whose index along axis \<open>perm[k]\<close>
  is \<open>j[k]\<close>.  \<open>perm\<close> must be a permutation of the axes of \<open>a\<close>.
\<close>

definition tf_transpose :: "'a tensor \<Rightarrow> nat list \<Rightarrow> error + 'a tensor" where
  "tf_transpose a perm =
     (if sort perm = [0..<length (shape a)]
      then Inr \<lparr>shape = map (\<lambda>p. shape a ! p) perm,
                entries = map (\<lambda>j. entries a ! sum_list (map2 (\<lambda>jk p. jk * strides (shape a) ! p) j perm))
                          (indices (map (\<lambda>p. shape a ! p) perm))\<rparr>
      else Inl InvalidArgumentError)"

text \<open>
  \<^verbatim>\<open>
  def time_major(batch_input, rank):
      return tf.transpose(batch_input, perm=[1, 0]+range(2, rank))
  \<close>
\<close>

definition time_major :: "'a tensor \<Rightarrow> nat \<Rightarrow> error + 'a tensor" where
  "time_major batch_input rank = tf_transpose batch_input ([1, 0] @ [2..<rank])"

section \<open>Nested structures of tensors\<close>

text \<open>
  The state of a recurrent cell is a tensor, or a tuple of states (an LSTM state is the
  pair of its cell and hidden tensors).  \<open>flatten\<close> and \<open>pack_sequence_as\<close> are the two
  functions of \<open>tensorflow.python.util.nest\<close> the code calls.
\<close>

datatype 'b nest = Leaf 'b | Tuple "'b nest list"

fun flatten :: "'b nest \<Rightarrow> 'b list" where
  "flatten (Leaf x) = [x]"
| "flatten (Tuple ts) = concat (map flatten ts)"

definition same_structure :: "'b nest \<Rightarrow> 'c nest \<Rightarrow> bool" where
  "same_structure s t = (map_nest (\<lambda>_. ()) s = map_nest (\<lambda>_. ()) t)"

fun pack_helper :: "'c nest \<Rightarrow> 'b list \<Rightarrow> 'b nest \<times> 'b list"
  and pack_list :: "'c nest list \<Rightarrow> 'b list \<Rightarrow> 'b nest list \<times> 'b list" where
  "pack_helper (Leaf _) xs = (Leaf (hd xs), tl xs)"
| "pack_helper (Tuple ts) xs = (case pack_list ts xs of (ps, rest) \<Rightarrow> (Tuple ps, rest))"
| "pack_list [] xs = ([], xs)"
| "pack_list (t # ts) xs =
     (case pack_helper t xs of (p, rest) \<Rightarrow>
        (case pack_list ts rest of (ps, rest') \<Rightarrow> (p # ps, rest')))"

definition pack_sequence_as :: "'c nest \<Rightarrow> 'b list \<Rightarrow> error + 'b nest" where
  "pack_sequence_as struct flat_sequence =
     (if length flat_sequence = length (flatten struct)
      then Inr (fst (pack_helper struct flat_sequence))
      else Inl ValueError)"

section \<open>The encoder-decoder model\<close>

text \<open>
  \<open>EncoderDecoder.__init__\<close> fixes \<open>self.batch_size = 1\<close>, and every placeholder has the
  static shape \<open>[batch_size, None]\<close>.  A value fed for \<open>input_data\<close>, \<open>input_iswrite\<close> or
  \<open>targets\<close> is therefore written as its single row, and a time-major tensor of shape
  \<open>[seq_len, batch_size, ..]\<close> as the list of its \<open>seq_len\<close> slices.  A matrix is the list
  of its rows.  The scalars \<open>'a\<close> stand for \<open>tf.float32\<close>: the definitions use only
  the operations the code applies to them, none of their laws.
\<close>

type_synonym 'a matrix = "'a list list"

definition batch_size :: nat where
  "batch_size = 1"

text \<open>
  What \<open>build_model\<close> creates and the session holds: the recurrent cell made by
  \<open>_build_rnn_cell\<close> (a TensorFlow cell: \<open>cell m x s\<close> is \<open>cell(x, s)\<close>, the pair of the
  output and the new state; \<open>state_size\<close> and \<open>output_size\<close> are the cell's attributes
  of these names), and the variables \<open>embedding\<close> of shape \<open>[vocab_size, rnn_size]\<close>,
  \<open>output_w\<close> of shape \<open>[cell.output_size, vocab_size]\<close> and \<open>output_b\<close> of shape
  \<open>[vocab_size]\<close>.
\<close>

record 'a model =
  vocab_size :: nat
  rnn_size :: nat
  cell :: "'a matrix \<Rightarrow> 'a matrix nest \<Rightarrow> 'a matrix \<times> 'a matrix nest"
  state_size :: "nat nest"
  output_size :: nat
  embedding :: "'a matrix"
  output_w :: "'a matrix"
  output_b :: "'a list"

text \<open>\<open>tf.zeros(shape)\<close> and \<open>tf.constant(0, shape=shape)\<close> for a shape \<open>[rows, cols]\<close>.\<close>

definition zeros :: "nat \<Rightarrow> nat \<Rightarrow> 'a::zero matrix" where
  "zeros rows cols = replicate rows (replicate cols 0)"

text \<open>\<open>self.init_state = cell.zero_state(self.batch_size, tf.float32)\<close>\<close>

definition self_init_state :: "'a::zero model \<Rightarrow> 'a matrix nest" where
  "self_init_state m = map_nest (\<lambda>n. zeros batch_size n) (state_size m)"

text \<open>
  \<open>tf.nn.embedding_lookup(params, i)\<close> for one index: the slice \<open>params[i]\<close>; an index
  out of range is an error.
\<close>

definition embedding_lookup :: "'b list \<Rightarrow> int \<Rightarrow> error + 'b" where
  "embedding_lookup params i =
     (if 0 \<le> i \<and> i < int (length params) then Inr (params ! nat i)
      else Inl InvalidArgumentError)"

text \<open>
  \<^verbatim>\<open>
  def _build_rnn_inputs(self):
      self.input_data = tf.placeholder(tf.int32, shape=[self.batch_size, None])
      embedding = tf.get_variable('embedding', [self.vocab_size, self.rnn_size])
      rnn_inputs = tf.nn.embedding_lookup(embedding, self.input_data)
      return time_major(rnn_inputs, 3)
  \<close>
  The result has one slice of shape \<open>[batch_size, rnn_size]\<close> for each token.
\<close>

definition build_rnn_inputs :: "'a model \<Rightarrow> int list \<Rightarrow> error + 'a matrix list" where
  "build_rnn_inputs m input_data =
     map_err (\<lambda>tok. case embedding_lookup (embedding m) tok of
                       Inl e \<Rightarrow> Inl e
                     | Inr row \<Rightarrow> Inr [row]) input_data"

subsection \<open>The sequence scan\<close>

text \<open>
  \<open>tf.scan(fn, elems, initializer)\<close> applies \<open>fn\<close> to the accumulator and each element
  in turn, starting from the initializer, and returns the accumulators stacked along a
  new first axis, packed in the structure of the initializer.  The accumulator here is
  the pair of an output tensor and a state; \<open>tf.scan\<close> refuses an \<open>fn\<close> whose result has
  not the structure of the initializer.
\<close>

fun scan_steps :: "('acc \<Rightarrow> 'x \<Rightarrow> 'acc) \<Rightarrow> 'acc \<Rightarrow> 'x list \<Rightarrow> 'acc list" where
  "scan_steps fn a [] = []"
| "scan_steps fn a (x # xs) = fn a x # scan_steps fn (fn a x) xs"

definition tf_scan ::
  "('o \<times> 's nest \<Rightarrow> 'x \<Rightarrow> 'o \<times> 's nest) \<Rightarrow> 'x list \<Rightarrow> 'o \<times> 's nest
     \<Rightarrow> error + 'o list \<times> 's list nest" where
  "tf_scan fn elems initializer =
     (let accs = scan_steps fn initializer elems in
      if list_all (\<lambda>a. same_structure (snd initializer) (snd a)) accs
      then (case pack_sequence_as (snd initializer)
                   (map (\<lambda>k. map (\<lambda>a. flatten (snd a) ! k) accs)
                        [0..<length (flatten (snd initializer))]) of
              Inl e \<Rightarrow> Inl e
            | Inr states \<Rightarrow> Inr (map fst accs, states))
      else Inl ValueError)"

text \<open>
  \<^verbatim>\<open>
  def _get_final_state(self, states):
      flat_states = nest.flatten(states)
      last_ind = tf.shape(flat_states[0])[0] - 1
      flat_last_states = [tf.nn.embedding_lookup(state, last_ind) for state in flat_states]
      last_states = nest.pack_sequence_as(states, flat_last_states)
      return last_states
  \<close>
\<close>

definition get_final_state :: "'s list nest \<Rightarrow> error + 's nest" where
  "get_final_state states =
     (let flat_states = flatten states in
      case flat_states of
        [] \<Rightarrow> Inl IndexError
      | s0 # _ \<Rightarrow>
          (let last_ind = int (length s0) - 1 in
           case map_err (\<lambda>state. embedding_lookup state last_ind) flat_states of
             Inl e \<Rightarrow> Inl e
           | Inr flat_last_states \<Rightarrow> pack_sequence_as states flat_last_states))"

text \<open>
  \<^verbatim>\<open>
  rnn_outputs, states = tf.scan(lambda a, x: cell(x, a[1]), inputs,
      initializer=(tf.zeros([self.batch_size, cell.output_size]), self.init_state), ...)
  self.final_state = self._get_final_state(states)
  \<close>
  A session run may feed a value for \<open>self.init_state\<close> (\<open>generate\<close> does); \<open>feed_init\<close>
  is that value, \<open>None\<close> when the run feeds none.  A fed value must have the structure of
  the tensor it replaces.
\<close>

definition initializer :: "'a::zero model \<Rightarrow> 'a matrix nest option \<Rightarrow> error + 'a matrix \<times> 'a matrix nest" where
  "initializer m feed_init =
     (case feed_init of
        None \<Rightarrow> Inr (zeros batch_size (output_size m), self_init_state m)
      | Some s \<Rightarrow>
          if same_structure (self_init_state m) s then Inr (zeros batch_size (output_size m), s)
          else Inl ValueError)"

definition run_scan ::
  "'a::zero model \<Rightarrow> 'a matrix nest option \<Rightarrow> int list
     \<Rightarrow> error + 'a matrix list \<times> 'a matrix list nest" where
  "run_scan m feed_init input_data =
     (case build_rnn_inputs m input_data of
        Inl e \<Rightarrow> Inl e
      | Inr inputs \<Rightarrow>
          (case initializer m feed_init of
             Inl e \<Rightarrow> Inl e
           | Inr a0 \<Rightarrow> tf_scan (\<lambda>a x. cell m x (snd a)) inputs a0))"

definition final_state ::
  "'a::zero model \<Rightarrow> 'a matrix nest option \<Rightarrow> int list \<Rightarrow> error + 'a matrix nest" where
  "final_state m feed_init input_data =
     (case run_scan m feed_init input_data of
        Inl e \<Rightarrow> Inl e
      | Inr (rnn_outputs, states) \<Rightarrow> get_final_state states)"

subsection \<open>Conditional output and loss\<close>

text \<open>
  \<open>tf.matmul(a, b)\<close> for \<open>b\<close> with \<open>ncols\<close> columns, and the sum \<open>x + b\<close> of a matrix and
  a vector, which adds the vector to every row.
\<close>

definition matmul :: "'a::{zero,plus,times} matrix \<Rightarrow> 'a matrix \<Rightarrow> nat \<Rightarrow> 'a matrix" where
  "matmul a b ncols =
     map (\<lambda>row. map (\<lambda>j. foldl (+) 0 (map2 (\<lambda>x brow. x * brow ! j) row b)) [0..<ncols]) a"

definition add_bias :: "'a::plus matrix \<Rightarrow> 'a list \<Rightarrow> 'a matrix" where
  "add_bias x b = map (\<lambda>row. map2 (+) row b) x"

text \<open>
  \<open>tf.map_fn(fn, elems)\<close> over a tuple of tensors: \<open>fn\<close> on the tuples of their slices;
  the tensors must have the same first dimension.
\<close>

definition map_fn2 :: "('x \<times> 'y \<Rightarrow> 'r) \<Rightarrow> 'x list \<times> 'y list \<Rightarrow> error + 'r list" where
  "map_fn2 fn elems =
     (case elems of (xs, ys) \<Rightarrow>
        if length xs = length ys then Inr (map fn (zip xs ys))
        else Inl InvalidArgumentError)"


text \<open>
  \<^verbatim>\<open>
  def cond_output((h, write)):
      def enc():
          return tf.constant(0, dtype=tf.float32, shape=[self.batch_size, self.vocab_size])
      def dec():
          return tf.matmul(h, w) + b
      return tf.cond(tf.identity(tf.reshape(write, [])), dec, enc)
  iswrite = time_major(self.input_iswrite, 2)
  self.outputs = tf.map_fn(cond_output, (rnn_outputs, iswrite), dtype=tf.float32)
  \<close>
\<close>

definition cond_output :: "'a::{zero,plus,times} model \<Rightarrow> 'a matrix \<times> bool \<Rightarrow> 'a matrix" where
  "cond_output m hw =
     (case hw of (h, write) \<Rightarrow>
        if write then add_bias (matmul h (output_w m) (vocab_size m)) (output_b m)
        else zeros batch_size (vocab_size m))"

definition outputs ::
  "'a::{zero,plus,times} model \<Rightarrow> 'a matrix nest option \<Rightarrow> int list \<Rightarrow> bool list
     \<Rightarrow> error + 'a matrix list" where
  "outputs m feed_init input_data input_iswrite =
     (case run_scan m feed_init input_data of
        Inl e \<Rightarrow> Inl e
      | Inr (rnn_outputs, states) \<Rightarrow> map_fn2 (cond_output m) (rnn_outputs, input_iswrite))"

text \<open>
  \<^verbatim>\<open>
  def cond_loss((output, target, write)):
      def loss():
          return tf.nn.sparse_softmax_cross_entropy_with_logits(output, target)
      def skip():
          return tf.constant(0, dtype=tf.float32, shape=[self.batch_size])
      return tf.cond(tf.identity(tf.reshape(write, [])), loss, skip)
  self.seq_loss = tf.map_fn(cond_loss,
          (self.outputs, time_major(self.targets, 2), iswrite), dtype=tf.float32)
  self.loss = tf.reduce_sum(self.seq_loss) / self.batch_size
                / tf.to_float(tf.shape(self.seq_loss)[0])
  \<close>
  \<open>tf.nn.sparse_softmax_cross_entropy_with_logits(logits, labels)\<close> gives one loss for
  each row of logits and its label.  A label must be a class, that is at least zero and
  less than the number of logits of its row; on any other label the operation raises
  \<open>InvalidArgumentError\<close>.  \<open>xent\<close> is the value TensorFlow computes for one row of
  logits and a label that is a class.  \<open>tf.cond\<close> runs the branch it selects only, so a
  label is looked at on the steps whose write flag is true.
\<close>

definition sparse_softmax_cross_entropy_with_logits ::
  "('a list \<Rightarrow> nat \<Rightarrow> 'a) \<Rightarrow> 'a matrix \<Rightarrow> int list \<Rightarrow> error + 'a list" where
  "sparse_softmax_cross_entropy_with_logits xent logits labels =
     map_err (\<lambda>rl. case rl of (row, label) \<Rightarrow>
                if 0 \<le> label \<and> label < int (length row) then Inr (xent row (nat label))
                else Inl InvalidArgumentError)
       (zip logits labels)"






subsection \<open>Generation\<close>

text \<open>
  Python's truth value of \<open>init_state\<close> in \<open>if init_state:\<close>.  \<open>None\<close> is false; a
  tuple (an \<open>LSTMStateTuple\<close>, the tuple of the layers' states) is true unless empty; a
  numpy array is true or false as its only element is non-zero or zero, false when it
  has no element, and raises \<open>ValueError\<close> when it has more than one.
\<close>

definition truth_value :: "'a::zero matrix nest option \<Rightarrow> error + bool" where
  "truth_value v =
     (case v of
        None \<Rightarrow> Inr False
      | Some (Tuple ts) \<Rightarrow> Inr (ts \<noteq> [])
      | Some (Leaf arr) \<Rightarrow>
          (case concat arr of
             [] \<Rightarrow> Inr False
           | [x] \<Rightarrow> Inr (x \<noteq> 0)
           | _ \<Rightarrow> Inl ValueError))"

text \<open>
  \<open>np.argmax\<close> along the last axis: the first index of a greatest element;
  \<open>ValueError\<close> on an empty axis.
\<close>

fun argmax_from :: "nat \<Rightarrow> 'a \<Rightarrow> nat \<Rightarrow> 'a::ord list \<Rightarrow> nat" where
  "argmax_from best bv i [] = best"
| "argmax_from best bv i (x # xs) =
     (if bv < x then argmax_from i x (Suc i) xs else argmax_from best bv (Suc i) xs)"

definition argmax :: "'a::ord list \<Rightarrow> error + nat" where
  "argmax xs = (case xs of [] \<Rightarrow> Inl ValueError | x # xs' \<Rightarrow> Inr (argmax_from 0 x 1 xs'))"

text \<open>
  \<open>pred = np.argmax(output, axis=2)\<close> followed by \<open>int(pred)\<close>: \<open>output\<close> has shape
  \<open>(seq_len, batch_size, vocab_size)\<close>, and \<open>int\<close> accepts an array of one element only.
\<close>

definition pred_of :: "'a::ord matrix list \<Rightarrow> error + int" where
  "pred_of output =
     (case map_err (map_err argmax) output of
        Inl e \<Rightarrow> Inl e
      | Inr pred \<Rightarrow> (case concat pred of [p] \<Rightarrow> Inr (int p) | _ \<Rightarrow> Inl TypeError))"

subsection \<open>The subclass with a knowledge graph\<close>

text \<open>
  \<open>AttnEncoderDecoder\<close> sets the attributes \<open>kg\<close> and \<open>entity_cache_size\<close> and replaces
  the cell and the inputs of the scan; \<open>generate\<close> tests \<open>hasattr(self, 'kg')\<close>.  Its
  collaborators are defined in other modules: they are the fields of this record.
  \<^item> \<open>load\<close> is \<open>self.kg.load\<close>, whose result is fed for \<open>self.kg.input_data\<close>;
  \<^item> \<open>attn_cell g\<close> is the \<open>AttnRNNCell\<close> that \<open>_build_rnn_cell\<close> makes, in a run that
    feeds \<open>g\<close> for \<open>self.kg.input_data\<close>: it takes the pair of a token's embedding and
    the entities of the step, and a state, and gives the output and the new state, or
    raises;
  \<^item> \<open>get_entities words entity_to_id n\<close> is \<open>get_entities\<close> of \<open>model.preprocess\<close>
    followed by \<open>np.asarray(.., dtype=np.int32).reshape([1, -1, n])\<close>: the rows of that
    array, or the exception either raises.
  For an \<open>AttnEncoderDecoder\<close> the field \<open>cell\<close> of the model is not read; the other
  fields of the model are those of its \<open>AttnRNNCell\<close> and its variables.
\<close>

record ('a, 'kb, 'g, 'w, 'l) knowledge =
  load :: "'kb \<Rightarrow> error + 'g"
  entity_cache_size :: nat
  attn_cell :: "'g \<Rightarrow> 'a matrix \<times> int matrix \<Rightarrow> 'a matrix nest
                  \<Rightarrow> error + 'a matrix \<times> 'a matrix nest"
  get_entities :: "'w list \<Rightarrow> 'l \<Rightarrow> nat \<Rightarrow> error + int list list"

text \<open>
  \<^verbatim>\<open>
  def _build_rnn_inputs(self):
      input_tokens = super(AttnEncoderDecoder, self)._build_rnn_inputs()
      self.input_entities = tf.placeholder(tf.int32,
          shape=[self.batch_size, None, self.entity_cache_size])
      input_entities = time_major(self.input_entities, 3)
      return (input_tokens, input_entities)
  \<close>
  A value fed for \<open>input_entities\<close> is written as the rows of its single batch entry.  A
  row that has not \<open>entity_cache_size\<close> entries does not fit the placeholder, and the
  scan needs as many rows of entities as tokens.
\<close>

definition attn_build_rnn_inputs ::
  "'a model \<Rightarrow> ('a, 'kb, 'g, 'w, 'l) knowledge \<Rightarrow> int list \<Rightarrow> int list list
     \<Rightarrow> error + ('a matrix \<times> int matrix) list" where
  "attn_build_rnn_inputs m k input_data input_entities =
     (if \<not> list_all (\<lambda>row. length row = entity_cache_size k) input_entities then Inl ValueError
      else (case build_rnn_inputs m input_data of
              Inl e \<Rightarrow> Inl e
            | Inr input_tokens \<Rightarrow>
                if length input_tokens = length input_entities
                then Inr (zip input_tokens (map (\<lambda>row. [row]) input_entities))
                else Inl InvalidArgumentError))"

text \<open>The scan with a function that can raise: the first exception ends the run.\<close>

fun scan_steps_err ::
  "('acc \<Rightarrow> 'x \<Rightarrow> error + 'acc) \<Rightarrow> 'acc \<Rightarrow> 'x list \<Rightarrow> error + 'acc list" where
  "scan_steps_err fn a [] = Inr []"
| "scan_steps_err fn a (x # xs) =
     (case fn a x of
        Inl e \<Rightarrow> Inl e
      | Inr a' \<Rightarrow>
          (case scan_steps_err fn a' xs of Inl e \<Rightarrow> Inl e | Inr accs \<Rightarrow> Inr (a' # accs)))"

definition tf_scan_err ::
  "('o \<times> 's nest \<Rightarrow> 'x \<Rightarrow> error + 'o \<times> 's nest) \<Rightarrow> 'x list \<Rightarrow> 'o \<times> 's nest
     \<Rightarrow> error + 'o list \<times> 's list nest" where
  "tf_scan_err fn elems init =
     (case scan_steps_err fn init elems of
        Inl e \<Rightarrow> Inl e
      | Inr accs \<Rightarrow>
          if list_all (\<lambda>a. same_structure (snd init) (snd a)) accs
          then (case pack_sequence_as (snd init)
                       (map (\<lambda>k. map (\<lambda>a. flatten (snd a) ! k) accs)
                            [0..<length (flatten (snd init))]) of
                  Inl e \<Rightarrow> Inl e
                | Inr states \<Rightarrow> Inr (map fst accs, states))
          else Inl ValueError)"

text \<open>
  The graph \<open>build_model\<close> makes for an \<open>AttnEncoderDecoder\<close>, in a run that feeds \<open>g\<close>
  for \<open>self.kg.input_data\<close>: the same as before, on the inputs and the cell of the
  subclass.
\<close>

definition attn_run_scan ::
  "'a::zero model \<Rightarrow> ('a, 'kb, 'g, 'w, 'l) knowledge \<Rightarrow> 'g \<Rightarrow> 'a matrix nest option
     \<Rightarrow> int list \<Rightarrow> int list list \<Rightarrow> error + 'a matrix list \<times> 'a matrix list nest" where
  "attn_run_scan m k g feed_init input_data input_entities =
     (case attn_build_rnn_inputs m k input_data input_entities of
        Inl e \<Rightarrow> Inl e
      | Inr inputs \<Rightarrow>
          (case initializer m feed_init of
             Inl e \<Rightarrow> Inl e
           | Inr a0 \<Rightarrow> tf_scan_err (\<lambda>a x. attn_cell k g x (snd a)) inputs a0))"

definition attn_final_state ::
  "'a::zero model \<Rightarrow> ('a, 'kb, 'g, 'w, 'l) knowledge \<Rightarrow> 'g \<Rightarrow> 'a matrix nest option
     \<Rightarrow> int list \<Rightarrow> int list list \<Rightarrow> error + 'a matrix nest" where
  "attn_final_state m k g feed_init input_data input_entities =
     (case attn_run_scan m k g feed_init input_data input_entities of
        Inl e \<Rightarrow> Inl e
      | Inr (rnn_outputs, states) \<Rightarrow> get_final_state states)"

definition attn_outputs ::
  "'a::{zero,plus,times} model \<Rightarrow> ('a, 'kb, 'g, 'w, 'l) knowledge \<Rightarrow> 'g \<Rightarrow> 'a matrix nest option
     \<Rightarrow> int list \<Rightarrow> int list list \<Rightarrow> bool list \<Rightarrow> error + 'a matrix list" where
  "attn_outputs m k g feed_init input_data input_entities input_iswrite =
     (case attn_run_scan m k g feed_init input_data input_entities of
        Inl e \<Rightarrow> Inl e
      | Inr (rnn_outputs, states) \<Rightarrow> map_fn2 (cond_output m) (rnn_outputs, input_iswrite))"

subsection \<open>The session runs of \<open>generate\<close>\<close>

text \<open>
  \<^verbatim>\<open>
  if hasattr(self, 'kg'):
      kg_input = self.kg.load(kb)
      feed_dict[self.kg.input_data] = kg_input
  \<close>
  The receiver \<open>self\<close> of \<open>generate\<close> is the model \<open>m\<close> and its attribute \<open>kg\<close>, which
  is \<open>None\<close> for an \<open>EncoderDecoder\<close>; the session holds the variables of \<open>m\<close>.  After
  these lines the run knows the receiver's \<open>kg\<close> and \<open>kg_input\<close>.
\<close>

definition load_kg ::
  "('a, 'kb, 'g, 'w, 'l) knowledge option \<Rightarrow> 'kb
     \<Rightarrow> error + (('a, 'kb, 'g, 'w, 'l) knowledge \<times> 'g) option" where
  "load_kg kg kb =
     (case kg of
        None \<Rightarrow> Inr None
      | Some k \<Rightarrow> (case load k kb of Inl e \<Rightarrow> Inl e | Inr kg_input \<Rightarrow> Inr (Some (k, kg_input))))"

text \<open>
  The priming run:
  \<^verbatim>\<open>
  feed_dict[self.input_data] = inputs[:, :-1]
  if hasattr(self, 'kg'):
      feed_dict[self.input_entities] = entities[:, :-1, :]
  [state] = sess.run([self.final_state], feed_dict=feed_dict)
  \<close>
\<close>

definition run_final_state ::
  "'a::zero model \<Rightarrow> (('a, 'kb, 'g, 'w, 'l) knowledge \<times> 'g) option \<Rightarrow> 'a matrix nest option
     \<Rightarrow> int list \<Rightarrow> int list list \<Rightarrow> error + 'a matrix nest" where
  "run_final_state m kgi feed_init input_data input_entities =
     (case kgi of
        None \<Rightarrow> final_state m feed_init input_data
      | Some (k, g) \<Rightarrow> attn_final_state m k g feed_init input_data input_entities)"

text \<open>
  One session run of the decoding loop:
  \<^verbatim>\<open>
  feed_dict = {self.input_data: input_, self.input_iswrite: iswrite}
  if state is not None:
      feed_dict[self.init_state] = state
  if hasattr(self, 'kg'):
      feed_dict[self.kg.input_data] = kg_input
      feed_dict[self.input_entities] = entity
  state, output = sess.run([self.final_state, self.outputs], feed_dict=feed_dict)
  \<close>
\<close>

definition run_step ::
  "'a::{zero,plus,times} model \<Rightarrow> (('a, 'kb, 'g, 'w, 'l) knowledge \<times> 'g) option
     \<Rightarrow> 'a matrix nest option \<Rightarrow> int list \<Rightarrow> int list list \<Rightarrow> bool list
     \<Rightarrow> error + 'a matrix nest \<times> 'a matrix list" where
  "run_step m kgi state input' entity iswrite =
     (case kgi of
        None \<Rightarrow>
          (case final_state m state input' of
             Inl e \<Rightarrow> Inl e
           | Inr state' \<Rightarrow>
               (case outputs m state input' iswrite of
                  Inl e \<Rightarrow> Inl e
                | Inr output \<Rightarrow> Inr (state', output)))
      | Some (k, g) \<Rightarrow>
          (case attn_final_state m k g state input' entity of
             Inl e \<Rightarrow> Inl e
           | Inr state' \<Rightarrow>
               (case attn_outputs m k g state input' entity iswrite of
                  Inl e \<Rightarrow> Inl e
                | Inr output \<Rightarrow> Inr (state', output))))"

text \<open>
  The update of the entities at the end of a turn of the loop:
  \<^verbatim>\<open>
  if hasattr(self, 'kg'):
      entity = get_entities(map(vocab.to_word, preds), \
              lexicon.entity_to_id, \
              self.entity_cache_size)
      entity = np.asarray(entity, dtype=np.int32).reshape([1, -1, self.entity_cache_size])
  \<close>
  \<open>vocab\<close> is \<open>vocab.to_word\<close>, which can raise, and \<open>lexicon\<close> is \<open>lexicon.entity_to_id\<close>.
\<close>

definition update_entity ::
  "(('a, 'kb, 'g, 'w, 'l) knowledge \<times> 'g) option \<Rightarrow> 'l \<Rightarrow> (int \<Rightarrow> error + 'w) \<Rightarrow> int list
     \<Rightarrow> int list list \<Rightarrow> error + int list list" where
  "update_entity kgi lexicon vocab preds entity =
     (case kgi of
        None \<Rightarrow> Inr entity
      | Some (k, g) \<Rightarrow>
          (case map_err vocab preds of
             Inl e \<Rightarrow> Inl e
           | Inr words \<Rightarrow> get_entities k words lexicon (entity_cache_size k)))"

text \<open>
  The loop of \<open>generate\<close>:
  \<^verbatim>\<open>
  iswrite = np.ones([1, 1]).astype(np.bool_)  # True
  preds = []
  while True:
      ... state, output = sess.run(...)
      pred = np.argmax(output, axis=2)
      input_ = pred
      pred = int(pred)
      preds.append(pred)
      if pred in stop_symbols or len(preds) == max_len:
          break
      # Update entity
      if hasattr(self, 'kg'):
          entity = ...
  return preds, state
  \<close>
  The loop may run forever: \<open>None\<close> is the value of a call that does not return.
\<close>

partial_function (option) decode_loop ::
  "'a::{zero,plus,times,ord} model \<Rightarrow> (('a, 'kb, 'g, 'w, 'l) knowledge \<times> 'g) option
     \<Rightarrow> int list \<Rightarrow> 'l \<Rightarrow> (int \<Rightarrow> error + 'w) \<Rightarrow> int option \<Rightarrow> int list \<Rightarrow> int list list
     \<Rightarrow> 'a matrix nest option \<Rightarrow> int list \<Rightarrow> (error + int list \<times> 'a matrix nest) option" where
  "decode_loop m kgi stop_symbols lexicon vocab max_len input' entity state preds =
     (case run_step m kgi state input' entity [True] of
        Inl e \<Rightarrow> Some (Inl e)
      | Inr (state', output) \<Rightarrow>
          (case pred_of output of
             Inl e \<Rightarrow> Some (Inl e)
           | Inr pred \<Rightarrow>
               if pred \<in> set stop_symbols \<or> Some (int (length (preds @ [pred]))) = max_len
               then Some (Inr (preds @ [pred], state'))
               else (case update_entity kgi lexicon vocab (preds @ [pred]) entity of
                       Inl e \<Rightarrow> Some (Inl e)
                     | Inr entity' \<Rightarrow>
                         decode_loop m kgi stop_symbols lexicon vocab max_len [pred] entity'
                           (Some state') (preds @ [pred]))))"

declare decode_loop.simps [code]

text \<open>
  \<^verbatim>\<open>
  def generate(self, sess, kb, inputs, entities, stop_symbols, lexicon, vocab,
               max_len=None, init_state=None):
      feed_dict = {}
      if init_state:
          feed_dict[self.init_state] = init_state
      if hasattr(self, 'kg'):
          kg_input = self.kg.load(kb)
          feed_dict[self.kg.input_data] = kg_input
      if inputs.shape[1] > 1:
          feed_dict[self.input_data] = inputs[:, :-1]
          if hasattr(self, 'kg'):
              feed_dict[self.input_entities] = entities[:, :-1, :]
          [state] = sess.run([self.final_state], feed_dict=feed_dict)
      else:
          state = init_state
      ...
      input_ = np.expand_dims(inputs[:, -1], 1)
      entity = np.expand_dims(entities[:, -1, :], 1)
  \<close>
  \<open>inputs\<close> is the row of the \<open>(1, n)\<close> array of tokens, \<open>entities\<close> the rows of the
  \<open>(1, n, k)\<close> array of entities; \<open>max_len\<close> is an integer or \<open>None\<close>.
  \<open>encode_inputs\<close> is the priming phase, from the feeds the lines before it have set.
\<close>

definition encode_inputs ::
  "'a::zero model \<Rightarrow> (('a, 'kb, 'g, 'w, 'l) knowledge \<times> 'g) option \<Rightarrow> 'a matrix nest option
     \<Rightarrow> int list \<Rightarrow> int list list \<Rightarrow> 'a matrix nest option \<Rightarrow> error + 'a matrix nest option" where
  "encode_inputs m kgi feed_init inputs entities init_state =
     (if length inputs > 1
      then (case run_final_state m kgi feed_init (butlast inputs) (butlast entities) of
              Inl e \<Rightarrow> Inl e
            | Inr state \<Rightarrow> Inr (Some state))
      else Inr init_state)"

definition generate ::
  "'a::{zero,plus,times,ord} model \<Rightarrow> ('a, 'kb, 'g, 'w, 'l) knowledge option \<Rightarrow> 'kb \<Rightarrow> int list
     \<Rightarrow> int list list \<Rightarrow> int list \<Rightarrow> 'l \<Rightarrow> (int \<Rightarrow> error + 'w) \<Rightarrow> int option
     \<Rightarrow> 'a matrix nest option \<Rightarrow> (error + int list \<times> 'a matrix nest) option" where
  "generate m kg kb inputs entities stop_symbols lexicon vocab max_len init_state =
     (case truth_value init_state of
        Inl e \<Rightarrow> Some (Inl e)
      | Inr fed \<Rightarrow>
          (case load_kg kg kb of
             Inl e \<Rightarrow> Some (Inl e)
           | Inr kgi \<Rightarrow>
               (case encode_inputs m kgi (if fed then init_state else None) inputs entities
                       init_state of
                  Inl e \<Rightarrow> Some (Inl e)
                | Inr state \<Rightarrow>
                    if inputs = [] then Some (Inl IndexError)
                    else if entities = [] then Some (Inl IndexError)
                    else decode_loop m kgi stop_symbols lexicon vocab max_len [last inputs]
                           [last entities] state [])))"


section \<open>Vocabulary of the properties\<close>

text \<open>The slice at step \<open>t\<close> of the stacked states a scan returns.\<close>

definition slice :: "nat \<Rightarrow> 's list nest \<Rightarrow> 's nest" where
  "slice t states = map_nest (\<lambda>stacked. stacked ! t) states"

text \<open>
  Greedy decoding, in the words of the specification: from the token \<open>tok\<close>, the
  entities \<open>ent\<close> and the state \<open>st\<close>, each emitted token is a highest-scoring entry of
  the logits of a one-step run with the write flag true, and is the input of the next
  step, which starts from the state the run left and, for a receiver with a knowledge
  graph, from the entities of the tokens emitted so far (\<open>acc\<close> are those emitted
  before this trace).
\<close>

fun greedy_trace ::
  "'a::{zero,plus,times,ord} model \<Rightarrow> (('a, 'kb, 'g, 'w, 'l) knowledge \<times> 'g) option
     \<Rightarrow> 'l \<Rightarrow> (int \<Rightarrow> error + 'w) \<Rightarrow> int \<Rightarrow> int list list \<Rightarrow> 'a matrix nest option
     \<Rightarrow> int list \<Rightarrow> int list \<Rightarrow> bool" where
  "greedy_trace m kgi lexicon vocab tok ent st acc [] = True"
| "greedy_trace m kgi lexicon vocab tok ent st acc (p # ps) =
     (case run_step m kgi st [tok] ent [True] of
        Inl e \<Rightarrow> False
      | Inr (st', output) \<Rightarrow>
          (case output of
             [[logits]] \<Rightarrow>
               0 \<le> p \<and> nat p < length logits \<and> list_all (\<lambda>x. x \<le> logits ! nat p) logits
                 \<and> (ps = [] \<or>
                     (case update_entity kgi lexicon vocab (acc @ [p]) ent of
                        Inl e \<Rightarrow> False
                      | Inr ent' \<Rightarrow>
                          greedy_trace m kgi lexicon vocab p ent' (Some st') (acc @ [p]) ps))
           | _ \<Rightarrow> False))"

text \<open>
  What a call of the decoding loop that returns has done, when it started from the one
  token \<open>tok\<close>, the entities \<open>ent\<close>, the state \<open>st\<close> and the tokens \<open>acc\<close> emitted
  before: it has appended a greedy trace \<open>new\<close>, the condition of its \<open>break\<close> holds
  after the last token of \<open>new\<close> and after none before.
\<close>

definition loop_post ::
  "'a::{zero,plus,times,ord} model \<Rightarrow> (('a, 'kb, 'g, 'w, 'l) knowledge \<times> 'g) option
     \<Rightarrow> int list \<Rightarrow> 'l \<Rightarrow> (int \<Rightarrow> error + 'w) \<Rightarrow> int option \<Rightarrow> int list \<Rightarrow> int list list
     \<Rightarrow> 'a matrix nest option \<Rightarrow> int list \<Rightarrow> error + int list \<times> 'a matrix nest \<Rightarrow> bool" where
  "loop_post m kgi stop_symbols lexicon vocab max_len input' entity state acc y =
     (\<forall>tok preds state'. input' = [tok] \<longrightarrow> y = Inr (preds, state') \<longrightarrow>
        (\<exists>new. preds = acc @ new \<and> new \<noteq> []
           \<and> greedy_trace m kgi lexicon vocab tok entity state acc new
           \<and> (last new \<in> set stop_symbols \<or> Some (int (length preds)) = max_len)
           \<and> (\<forall>k<length new - 1.
                 new ! k \<notin> set stop_symbols \<and> Some (int (length acc + Suc k)) \<noteq> max_len)))"

section \<open>Small models\<close>

text \<open>
  \<open>toy\<close> has three tokens and a state of two tensors, as an LSTM has; its cell adds the
  input to the first tensor of the state.  \<open>plain\<close> has a state of one tensor of two
  entries, as a simple recurrent cell of size two has; \<open>stuck\<close> has one token only.
\<close>

definition toy_cell :: "real matrix \<Rightarrow> real matrix nest \<Rightarrow> real matrix \<times> real matrix nest" where
  "toy_cell x s =
     (case s of
        Tuple [Leaf c, Leaf h] \<Rightarrow>
          (map2 (map2 (+)) x c, Tuple [Leaf (map2 (map2 (+)) x c), Leaf (map2 (map2 (+)) x c)])
      | _ \<Rightarrow> (x, s))"

definition toy :: "real model" where
  "toy = \<lparr>vocab_size = 3, rnn_size = 1, cell = toy_cell,
          state_size = Tuple [Leaf 1, Leaf 1], output_size = 1,
          embedding = [[1], [1], [1]],
          output_w = [[0, 1, 2]], output_b = [3, 1, - 4]\<rparr>"

definition plain :: "int model" where
  "plain = \<lparr>vocab_size = 2, rnn_size = 2, cell = (\<lambda>x s. (x, Leaf x)),
            state_size = Leaf 2, output_size = 2,
            embedding = [[1, 0], [0, 1]],
            output_w = [[1, 0], [0, 1]], output_b = [0, 0]\<rparr>"

definition stuck :: "int model" where
  "stuck = \<lparr>vocab_size = 1, rnn_size = 1, cell = (\<lambda>x s. (x, Leaf x)),
            state_size = Leaf 1, output_size = 1,
            embedding = [[1]],
            output_w = [[1]], output_b = [0]\<rparr>"

text \<open>
  \<open>toy_kg\<close> is a knowledge graph for \<open>toy\<close> with one entity in the cache: its cell adds
  the loaded value and the entity of the step to the input of the cell of \<open>toy\<close>, the
  words are the tokens, and the entity of a turn is the last token emitted.  Its
  \<open>to_word\<close> knows the tokens below three only.
\<close>

definition toy_kg :: "(real, real, real, int, unit) knowledge" where
  "toy_kg = \<lparr>load = (\<lambda>kb. Inr kb), entity_cache_size = 1,
             attn_cell = (\<lambda>g xe s. case xe of (x, ents) \<Rightarrow>
                            Inr (toy_cell (map (map (\<lambda>v. v + g + of_int (sum_list (concat ents)))) x) s)),
             get_entities = (\<lambda>words entity_to_id n. Inr [[last words]])\<rparr>"

definition toy_to_word :: "int \<Rightarrow> error + int" where
  "toy_to_word p = (if p < 3 then Inr p else Inl IndexError)"

text \<open>A receiver without a knowledge graph, and the arguments it does not read.\<close>

definition no_kg :: "('a, unit, unit, unit, unit) knowledge option" where
  "no_kg = None"

definition no_vocab :: "int \<Rightarrow> error + unit" where
  "no_vocab p = Inr ()"

section \<open>Flattening and packing\<close>

lemma flatten_map_nest: "flatten (map_nest f s) = map f (flatten s)"
  by (induction s) (simp_all add: map_concat comp_def cong: map_cong)

lemma pack_shape:
  "pack_helper (map_nest f s) xs = pack_helper s xs"
  "pack_list (map (map_nest f) ts) xs = pack_list ts xs"
  by (induction s xs and ts xs rule: pack_helper_pack_list.induct) (auto split: prod.splits)

lemma pack_list_flatten:
  "(\<And>t rest. t \<in> set ts \<Longrightarrow> pack_helper t (flatten t @ rest) = (t, rest))
   \<Longrightarrow> pack_list ts (concat (map flatten ts) @ rest) = (ts, rest)"
  by (induction ts arbitrary: rest) simp_all

lemma pack_helper_flatten: "pack_helper p (flatten p @ rest) = (p, rest)"
proof (induction p arbitrary: rest)
  case (Leaf x)
  show ?case by simp
next
  case (Tuple ts)
  then show ?case by (simp add: pack_list_flatten)
qed

lemma same_structure_pack:
  assumes "same_structure s p"
  shows "pack_helper s xs = pack_helper p xs"
proof -
  have "pack_helper s xs = pack_helper (map_nest (\<lambda>_. ()) s) xs"
    by (simp add: pack_shape)
  also have "\<dots> = pack_helper (map_nest (\<lambda>_. ()) p) xs"
    using assms by (simp add: same_structure_def)
  also have "\<dots> = pack_helper p xs"
    by (simp add: pack_shape)
  finally show ?thesis .
qed

lemma same_structure_length:
  assumes "same_structure s t"
  shows "length (flatten s) = length (flatten t)"
proof -
  have "flatten (map_nest (\<lambda>_. ()) s) = flatten (map_nest (\<lambda>_. ()) t)"
    using assms by (simp add: same_structure_def)
  then have "length (map (\<lambda>_. ()) (flatten s)) = length (map (\<lambda>_. ()) (flatten t))"
    by (simp only: flatten_map_nest)
  then show ?thesis by simp
qed

lemma pack_sequence_as_flatten:
  assumes "same_structure s p"
  shows "pack_sequence_as s (flatten p) = Inr p"
  using pack_helper_flatten[of p "[]"]
  by (simp add: pack_sequence_as_def same_structure_pack[OF assms] same_structure_length[OF assms])

text \<open>Packing any list of the right length gives a nest of that structure and these leaves.\<close>

lemma pack_list_any:
  "(\<And>t (ys::'y list) r. t \<in> set ts \<Longrightarrow> length ys = length (flatten t) \<Longrightarrow>
      (\<exists>p. pack_helper t (ys @ r) = (p, r) \<and> flatten p = ys \<and> same_structure t p))
   \<Longrightarrow> length (xs::'y list) = length (concat (map flatten ts))
   \<Longrightarrow> \<exists>ps. pack_list ts (xs @ rest) = (ps, rest) \<and> concat (map flatten ps) = xs
          \<and> map (map_nest (\<lambda>_. ())) ts = map (map_nest (\<lambda>_. ())) ps"
proof (induction ts arbitrary: xs rest)
  case Nil
  then show ?case by simp
next
  case (Cons t ts)
  let ?n = "length (flatten t)"
  have len: "length (take ?n xs) = ?n" "length (drop ?n xs) = length (concat (map flatten ts))"
    using Cons.prems(2) by simp_all
  obtain p where p: "pack_helper t (take ?n xs @ (drop ?n xs @ rest)) = (p, drop ?n xs @ rest)"
      "flatten p = take ?n xs" "same_structure t p"
    using Cons.prems(1)[of t "take ?n xs" "drop ?n xs @ rest"] len by auto
  obtain ps where ps: "pack_list ts (drop ?n xs @ rest) = (ps, rest)"
      "concat (map flatten ps) = drop ?n xs"
      "map (map_nest (\<lambda>_. ())) ts = map (map_nest (\<lambda>_. ())) ps"
    using Cons.IH[of "drop ?n xs" rest] Cons.prems(1) len by auto
  have "pack_list (t # ts) (take ?n xs @ (drop ?n xs @ rest)) = (p # ps, rest)"
    using p(1) ps(1) by simp
  moreover have "take ?n xs @ (drop ?n xs @ rest) = xs @ rest"
    by simp
  ultimately have "pack_list (t # ts) (xs @ rest) = (p # ps, rest)"
    by (simp only:)
  moreover have "concat (map flatten (p # ps)) = xs"
    using p(2) ps(2) by simp
  ultimately show ?case
    using p(3) ps(3) by (auto simp: same_structure_def)
qed

lemma pack_helper_any:
  "length (xs::'y list) = length (flatten (s::'x nest)) \<Longrightarrow>
     \<exists>p. pack_helper s (xs @ rest) = (p, rest) \<and> flatten p = xs \<and> same_structure s p"
proof (induction s arbitrary: xs rest)
  case (Leaf x)
  then show ?case by (cases xs) (simp_all add: same_structure_def)
next
  case (Tuple ts)
  have "\<exists>ps. pack_list ts (xs @ rest) = (ps, rest) \<and> concat (map flatten ps) = xs
          \<and> map (map_nest (\<lambda>_. ())) ts = map (map_nest (\<lambda>_. ())) ps"
  proof (rule pack_list_any)
    fix t :: "'x nest" and ys rest' :: "'y list"
    assume "t \<in> set ts" "length ys = length (flatten t)"
    then show "\<exists>p. pack_helper t (ys @ rest') = (p, rest') \<and> flatten p = ys \<and> same_structure t p"
      by (rule Tuple.IH)
  next
    show "length xs = length (concat (map flatten ts))"
      using Tuple.prems by simp
  qed
  then show ?case by (auto simp: same_structure_def)
qed

lemma pack_sequence_as_any:
  assumes "length xs = length (flatten s)"
  shows "\<exists>p. pack_sequence_as s xs = Inr p \<and> flatten p = xs \<and> same_structure s p"
  using pack_helper_any[OF assms, of "[]"] assms by (auto simp: pack_sequence_as_def)

section \<open>The scan and the final state\<close>

lemma length_scan_steps: "length (scan_steps fn a xs) = length xs"
  by (induction xs arbitrary: a) simp_all

lemma scan_steps_append:
  "scan_steps fn a (xs @ ys) = scan_steps fn a xs @ scan_steps fn (foldl fn a xs) ys"
  by (induction xs arbitrary: a) simp_all


lemma last_scan_steps:
  "xs \<noteq> [] \<Longrightarrow> last (scan_steps fn a xs) = foldl fn a xs"
proof (induction xs arbitrary: a)
  case Nil
  then show ?case by simp
next
  case (Cons x xs)
  then show ?case by (cases xs) simp_all
qed

lemma map_err_Inr:
  "(\<And>x. x \<in> set xs \<Longrightarrow> f x = Inr (g x)) \<Longrightarrow> map_err f xs = Inr (map g xs)"
  by (induction xs) simp_all

lemma map_err_Inl_hd:
  "xs \<noteq> [] \<Longrightarrow> f (hd xs) = Inl e \<Longrightarrow> map_err f xs = Inl e"
  by (cases xs) simp_all

lemma map_err_length:
  "map_err f xs = Inr ys \<Longrightarrow> length ys = length xs"
  by (induction xs arbitrary: ys) (auto split: sum.splits)

lemma map_err_nth:
  "map_err f xs = Inr ys \<Longrightarrow> i < length xs \<Longrightarrow> f (xs ! i) = Inr (ys ! i)"
proof (induction xs arbitrary: ys i)
  case Nil
  then show ?case by simp
next
  case (Cons x xs)
  then show ?case by (cases i) (auto split: sum.splits)
qed

text \<open>The scan, and the final state read from its stacked states.\<close>

lemma tf_scan_Inr:
  assumes "list_all (\<lambda>a. same_structure (snd a0) (snd a)) (scan_steps fn a0 es)"
  shows "\<exists>states. tf_scan fn es a0 = Inr (map fst (scan_steps fn a0 es), states)
           \<and> flatten states = map (\<lambda>k. map (\<lambda>a. flatten (snd a) ! k) (scan_steps fn a0 es))
                                   [0..<length (flatten (snd a0))]
           \<and> same_structure (snd a0) states"
proof -
  let ?stacked = "map (\<lambda>k. map (\<lambda>a. flatten (snd a) ! k) (scan_steps fn a0 es))
                      [0..<length (flatten (snd a0))]"
  have "length ?stacked = length (flatten (snd a0))" by simp
  from pack_sequence_as_any[OF this]
  obtain states where "pack_sequence_as (snd a0) ?stacked = Inr states"
    "flatten states = ?stacked" "same_structure (snd a0) states"
    by blast
  then show ?thesis using assms by (simp add: tf_scan_def)
qed

lemma tf_scan_Inl:
  assumes "\<not> list_all (\<lambda>a. same_structure (snd a0) (snd a)) (scan_steps fn a0 es)"
  shows "tf_scan fn es a0 = Inl ValueError"
  using assms by (simp add: tf_scan_def)

lemma get_final_state_stacked:
  assumes flat: "flatten states = map (\<lambda>k. map (\<lambda>a. flatten (snd a) ! k) accs) [0..<n]"
    and n: "n = length (flatten (snd a0))"
    and str: "same_structure (snd a0) states"
    and all: "list_all (\<lambda>a. same_structure (snd a0) (snd a)) accs"
  shows "get_final_state states =
           (if n = 0 then Inl IndexError
            else if accs = [] then Inl InvalidArgumentError
            else Inr (snd (last accs)))"
proof (cases "n = 0")
  case True
  then show ?thesis using flat by (simp add: get_final_state_def)
next
  case n0: False
  let ?flat = "map (\<lambda>k. map (\<lambda>a. flatten (snd a) ! k) accs) [0..<n]"
  have hd: "?flat = map (\<lambda>a. flatten (snd a) ! 0) accs # tl ?flat"
    using n0 by (cases n) (simp_all add: upt_rec)
  have gfs: "get_final_state states =
      (case map_err (\<lambda>state. embedding_lookup state (int (length accs) - 1)) ?flat of
         Inl e \<Rightarrow> Inl e | Inr fl \<Rightarrow> pack_sequence_as states fl)"
    unfolding get_final_state_def flat Let_def by (subst hd) simp
  show ?thesis
  proof (cases "accs = []")
    case True
    have "map_err (\<lambda>state. embedding_lookup state (int (length accs) - 1)) ?flat
            = Inl InvalidArgumentError"
      using True n0 by (intro map_err_Inl_hd) (simp_all add: embedding_lookup_def hd_map upt_rec)
    then show ?thesis using True n0 gfs by simp
  next
    case False
    let ?lst = "snd (last accs)"
    have lasts: "same_structure (snd a0) ?lst"
      using all False by (simp add: list_all_iff)
    have len: "length (flatten ?lst) = n"
      using same_structure_length[OF lasts] n by simp
    have "map_err (\<lambda>state. embedding_lookup state (int (length accs) - 1)) ?flat
            = Inr (map (\<lambda>st. st ! (length accs - 1)) ?flat)"
      using False by (intro map_err_Inr) (auto simp: embedding_lookup_def nat_diff_distrib')
    moreover have "map (\<lambda>st. st ! (length accs - 1)) ?flat = flatten ?lst"
      using False len by (auto simp: last_conv_nth intro!: nth_equalityI)
    moreover have "pack_sequence_as states (flatten ?lst) = Inr ?lst"
    proof (rule pack_sequence_as_flatten)
      show "same_structure states ?lst"
        using str lasts by (simp add: same_structure_def)
    qed
    ultimately show ?thesis using False n0 gfs by simp
  qed
qed

section \<open>The scan of the model\<close>

lemma same_structure_refl: "same_structure s s"
  by (simp add: same_structure_def)

lemma same_structure_map_nest: "same_structure (map_nest f s) t = same_structure s t"
  by (simp add: same_structure_def nest.map_comp comp_def)

lemma same_structure_trans:
  "same_structure s t \<Longrightarrow> same_structure t u \<Longrightarrow> same_structure s u"
  by (simp add: same_structure_def)

lemma same_structure_sym: "same_structure s t \<Longrightarrow> same_structure t s"
  by (simp add: same_structure_def)

lemma nest_eqI:
  assumes "same_structure p q" and "flatten p = flatten q"
  shows "p = q"
proof -
  have "pack_sequence_as p (flatten p) = Inr p"
    by (rule pack_sequence_as_flatten) (rule same_structure_refl)
  moreover have "pack_sequence_as p (flatten q) = Inr q"
    by (rule pack_sequence_as_flatten) (rule assms(1))
  ultimately have "Inr p = (Inr q :: error + 'a nest)"
    by (simp only: assms(2))
  then show ?thesis by (simp only: sum.inject)
qed


lemma slice_stacked:
  assumes flat: "flatten states = map (\<lambda>k. map (\<lambda>a. flatten (snd a) ! k) accs) [0..<n]"
    and n: "n = length (flatten (snd a0))"
    and str: "same_structure (snd a0) states"
    and all: "list_all (\<lambda>a. same_structure (snd a0) (snd a)) accs"
    and t: "t < length accs"
  shows "slice t states = snd (accs ! t)"
proof (rule nest_eqI)
  have st: "same_structure (snd a0) (snd (accs ! t))"
    using all t by (simp add: list_all_length)
  show "same_structure (slice t states) (snd (accs ! t))"
    unfolding slice_def same_structure_map_nest
    using same_structure_trans[OF same_structure_sym[OF str] st] .
  have "length (flatten (snd (accs ! t))) = n"
    using same_structure_length[OF st] n by simp
  then show "flatten (slice t states) = flatten (snd (accs ! t))"
    using t by (auto simp: slice_def flatten_map_nest flat intro!: nth_equalityI)
qed

lemma map_err_append:
  "map_err f (xs @ ys) =
     (case map_err f xs of Inl e \<Rightarrow> Inl e
      | Inr us \<Rightarrow> (case map_err f ys of Inl e \<Rightarrow> Inl e | Inr vs \<Rightarrow> Inr (us @ vs)))"
  by (induction xs) (simp_all split: sum.splits)

lemma build_rnn_inputs_nth:
  assumes "build_rnn_inputs m xs = Inr es" and "t < length xs"
  shows "0 \<le> xs ! t \<and> xs ! t < int (length (embedding m)) \<and> es ! t = [embedding m ! nat (xs ! t)]"
  using map_err_nth[OF assms[unfolded build_rnn_inputs_def]]
  by (auto simp: embedding_lookup_def split: if_splits)

lemma build_rnn_inputs_length:
  "build_rnn_inputs m xs = Inr es \<Longrightarrow> length es = length xs"
  unfolding build_rnn_inputs_def by (rule map_err_length)

lemma run_scan_elim:
  assumes "run_scan m feed_init input_data = Inr (rnn_outputs, states)"
  obtains inputs a0 where
    "build_rnn_inputs m input_data = Inr inputs"
    "initializer m feed_init = Inr a0"
    "list_all (\<lambda>a. same_structure (snd a0) (snd a)) (scan_steps (\<lambda>a x. cell m x (snd a)) a0 inputs)"
    "rnn_outputs = map fst (scan_steps (\<lambda>a x. cell m x (snd a)) a0 inputs)"
    "flatten states = map (\<lambda>k. map (\<lambda>a. flatten (snd a) ! k) (scan_steps (\<lambda>a x. cell m x (snd a)) a0 inputs))
                         [0..<length (flatten (snd a0))]"
    "same_structure (snd a0) states"
proof -
  from assms obtain inputs a0 where
    b: "build_rnn_inputs m input_data = Inr inputs" and
    i: "initializer m feed_init = Inr a0" and
    s: "tf_scan (\<lambda>a x. cell m x (snd a)) inputs a0 = Inr (rnn_outputs, states)"
    by (auto simp: run_scan_def split: sum.splits)
  let ?accs = "scan_steps (\<lambda>a x. cell m x (snd a)) a0 inputs"
  have all: "list_all (\<lambda>a. same_structure (snd a0) (snd a)) ?accs"
    using s tf_scan_Inl[of a0 "\<lambda>a x. cell m x (snd a)" inputs] by auto
  from tf_scan_Inr[OF all] s
  have "rnn_outputs = map fst ?accs"
    "flatten states = map (\<lambda>k. map (\<lambda>a. flatten (snd a) ! k) ?accs) [0..<length (flatten (snd a0))]"
    "same_structure (snd a0) states"
    by auto
  with b i all show ?thesis by (rule that)
qed


lemma final_state_run_scan:
  assumes "run_scan m feed_init input_data = Inr (rnn_outputs, states)"
  shows "final_state m feed_init input_data =
           (if flatten states = [] then Inl IndexError
            else if input_data = [] then Inl InvalidArgumentError
            else Inr (slice (length input_data - 1) states))"
proof -
  from assms obtain inputs a0 where
    b: "build_rnn_inputs m input_data = Inr inputs" and
    all: "list_all (\<lambda>a. same_structure (snd a0) (snd a)) (scan_steps (\<lambda>a x. cell m x (snd a)) a0 inputs)" and
    flat: "flatten states = map (\<lambda>k. map (\<lambda>a. flatten (snd a) ! k) (scan_steps (\<lambda>a x. cell m x (snd a)) a0 inputs))
                         [0..<length (flatten (snd a0))]" and
    str: "same_structure (snd a0) states"
    by (rule run_scan_elim)
  let ?accs = "scan_steps (\<lambda>a x. cell m x (snd a)) a0 inputs"
  have len: "length ?accs = length input_data"
    using build_rnn_inputs_length[OF b] by (simp add: length_scan_steps)
  have gfs: "get_final_state states =
           (if length (flatten (snd a0)) = 0 then Inl IndexError
            else if ?accs = [] then Inl InvalidArgumentError
            else Inr (snd (last ?accs)))"
    using flat refl str all by (rule get_final_state_stacked)
  have e1: "(length (flatten (snd a0)) = 0) = (flatten states = [])"
    using flat by simp
  have e2: "(?accs = []) = (input_data = [])"
    using len by (metis length_0_conv)
  have e3: "input_data \<noteq> [] \<Longrightarrow> snd (last ?accs) = slice (length input_data - 1) states"
  proof -
    assume ne: "input_data \<noteq> []"
    then have "length input_data - 1 < length ?accs" using len by simp
    from slice_stacked[OF flat refl str all this]
    show ?thesis using ne e2 len by (simp add: last_conv_nth)
  qed
  have "get_final_state states =
           (if flatten states = [] then Inl IndexError
            else if input_data = [] then Inl InvalidArgumentError
            else Inr (snd (last ?accs)))"
    using gfs by (simp only: e1 e2)
  moreover have "final_state m feed_init input_data = get_final_state states"
    using assms by (simp add: final_state_def)
  ultimately show ?thesis
    using e3 by simp
qed

section \<open>Logits and losses of the steps\<close>

lemma map_fn2_Inr:
  "map_fn2 fn (xs, ys) = Inr rs \<longleftrightarrow> length xs = length ys \<and> rs = map fn (zip xs ys)"
  by (auto simp: map_fn2_def)

lemma run_scan_length:
  assumes "run_scan m feed_init input_data = Inr (rnn_outputs, states)"
  shows "length rnn_outputs = length input_data"
proof -
  from assms obtain inputs a0 where
    "build_rnn_inputs m input_data = Inr inputs"
    "rnn_outputs = map fst (scan_steps (\<lambda>a x. cell m x (snd a)) a0 inputs)"
    by (rule run_scan_elim)
  then show ?thesis
    using build_rnn_inputs_length by (simp add: length_scan_steps)
qed

lemma outputs_Inr:
  assumes "outputs m feed_init input_data input_iswrite = Inr outs"
  obtains rnn_outputs states where
    "run_scan m feed_init input_data = Inr (rnn_outputs, states)"
    "length input_iswrite = length input_data"
    "outs = map (cond_output m) (zip rnn_outputs input_iswrite)"
proof -
  from assms obtain rnn_outputs states where
    r: "run_scan m feed_init input_data = Inr (rnn_outputs, states)" and
    f: "map_fn2 (cond_output m) (rnn_outputs, input_iswrite) = Inr outs"
    by (auto simp: outputs_def split: sum.splits)
  from f have "length rnn_outputs = length input_iswrite"
    "outs = map (cond_output m) (zip rnn_outputs input_iswrite)"
    by (simp_all add: map_fn2_Inr)
  with r run_scan_length[OF r] show ?thesis by (intro that) simp_all
qed



lemma map_err_Inr_iff:
  "map_err f xs = Inr ys \<longleftrightarrow> length ys = length xs \<and> (\<forall>i<length xs. f (xs ! i) = Inr (ys ! i))"
proof (induction xs arbitrary: ys)
  case Nil
  show ?case by auto
next
  case (Cons x xs)
  show ?case
  proof (cases ys)
    case Nil
    then show ?thesis by (auto split: sum.splits)
  next
    case (Cons y ys')
    have "(\<forall>i<Suc (length xs). f ((x # xs) ! i) = Inr ((y # ys') ! i))
            = (f x = Inr y \<and> (\<forall>i<length xs. f (xs ! i) = Inr (ys' ! i)))"
      by (auto simp: less_Suc_eq_0_disj)
    then show ?thesis
      using Cons.IH[of ys'] Cons by (auto split: sum.splits)
  qed
qed


text \<open>The cross-entropy operation returns on labels that are classes, and on no others.\<close>

lemma sparse_softmax_cross_entropy_Inr:
  "sparse_softmax_cross_entropy_with_logits xent logits labels = Inr l \<longleftrightarrow>
     length l = min (length logits) (length labels)
     \<and> (\<forall>i<min (length logits) (length labels).
           0 \<le> labels ! i \<and> labels ! i < int (length (logits ! i))
           \<and> l ! i = xent (logits ! i) (nat (labels ! i)))"
proof -
  let ?f = "\<lambda>rl. case rl of (row, label) \<Rightarrow>
                if 0 \<le> label \<and> label < int (length row) then Inr (xent row (nat label))
                else Inl InvalidArgumentError"
  have step: "(?f (zip logits labels ! i) = Inr (l ! i))
          = (0 \<le> labels ! i \<and> labels ! i < int (length (logits ! i))
             \<and> l ! i = xent (logits ! i) (nat (labels ! i)))"
    if "i < min (length logits) (length labels)" for i
  proof (cases "0 \<le> labels ! i \<and> labels ! i < int (length (logits ! i))")
    case True
    then show ?thesis using that by (simp add: eq_commute[of "l ! i"])
  next
    case False
    then show ?thesis using that by auto
  qed
  have "(\<forall>i<length (zip logits labels). ?f (zip logits labels ! i) = Inr (l ! i))
          = (\<forall>i<min (length logits) (length labels).
               0 \<le> labels ! i \<and> labels ! i < int (length (logits ! i))
               \<and> l ! i = xent (logits ! i) (nat (labels ! i)))"
    using step by (simp only: length_zip) blast
  then show ?thesis
    unfolding sparse_softmax_cross_entropy_with_logits_def map_err_Inr_iff
    by (simp only: length_zip)
qed






section \<open>Greedy choice and termination of the loop\<close>

lemma argmax_from_spec:
  fixes xs :: "'a::linorder list"
  shows "(argmax_from best bv i xs = best \<and> (\<forall>x\<in>set xs. x \<le> bv))
       \<or> (\<exists>k<length xs. argmax_from best bv i xs = i + k \<and> bv < xs ! k \<and> (\<forall>x\<in>set xs. x \<le> xs ! k))"
proof (induction xs arbitrary: best bv i)
  case Nil
  then show ?case by simp
next
  case (Cons x xs)
  show ?case
  proof (cases "bv < x")
    case True
    from Cons.IH[of i x "Suc i"] show ?thesis
    proof
      assume "argmax_from i x (Suc i) xs = i \<and> (\<forall>y\<in>set xs. y \<le> x)"
      then show ?thesis using True by (intro disjI2 exI[of _ 0]) simp
    next
      assume "\<exists>k<length xs. argmax_from i x (Suc i) xs = Suc i + k \<and> x < xs ! k \<and> (\<forall>y\<in>set xs. y \<le> xs ! k)"
      then obtain k where "k < length xs" "argmax_from i x (Suc i) xs = Suc i + k" "x < xs ! k"
        "\<forall>y\<in>set xs. y \<le> xs ! k" by blast
      then show ?thesis using True by (intro disjI2 exI[of _ "Suc k"]) auto
    qed
  next
    case False
    from Cons.IH[of best bv "Suc i"] show ?thesis
    proof
      assume "argmax_from best bv (Suc i) xs = best \<and> (\<forall>y\<in>set xs. y \<le> bv)"
      then show ?thesis using False by (intro disjI1) auto
    next
      assume "\<exists>k<length xs. argmax_from best bv (Suc i) xs = Suc i + k \<and> bv < xs ! k \<and> (\<forall>y\<in>set xs. y \<le> xs ! k)"
      then obtain k where "k < length xs" "argmax_from best bv (Suc i) xs = Suc i + k" "bv < xs ! k"
        "\<forall>y\<in>set xs. y \<le> xs ! k" by blast
      then show ?thesis using False by (intro disjI2 exI[of _ "Suc k"]) auto
    qed
  qed
qed

lemma argmax_Inr:
  fixes xs :: "'a::linorder list"
  assumes "argmax xs = Inr k"
  shows "k < length xs \<and> (\<forall>x\<in>set xs. x \<le> xs ! k)"
proof -
  from assms obtain x xs' where xs: "xs = x # xs'" and k: "k = argmax_from 0 x 1 xs'"
    by (auto simp: argmax_def split: list.splits)
  from argmax_from_spec[of 0 x 1 xs'] show ?thesis
  proof
    assume "argmax_from 0 x 1 xs' = 0 \<and> (\<forall>y\<in>set xs'. y \<le> x)"
    then show ?thesis using xs k by simp
  next
    assume "\<exists>j<length xs'. argmax_from 0 x 1 xs' = 1 + j \<and> x < xs' ! j \<and> (\<forall>y\<in>set xs'. y \<le> xs' ! j)"
    then show ?thesis using xs k by auto
  qed
qed

lemma outputs_length:
  "outputs m st inp iswrite = Inr outp \<Longrightarrow> length outp = length inp"
  by (erule outputs_Inr) (simp add: run_scan_length)

lemma pred_of_single:
  fixes outp :: "'a::linorder matrix list"
  assumes "pred_of outp = Inr p" and "length outp = 1"
  shows "\<exists>logits. outp = [[logits]] \<and> 0 \<le> p \<and> nat p < length logits
           \<and> list_all (\<lambda>x. x \<le> logits ! nat p) logits"
proof -
  from assms(2) obtain rows where o: "outp = [rows]"
    by (cases outp) simp_all
  from assms(1) o obtain ks where ks: "map_err argmax rows = Inr ks" and c: "ks = [nat p]" "0 \<le> p"
    by (auto simp: pred_of_def split: sum.splits list.splits)
  from map_err_length[OF ks] c obtain logits where r: "rows = [logits]"
    by (cases rows) simp_all
  from ks r c have "argmax logits = Inr (nat p)"
    by (simp split: sum.splits)
  from argmax_Inr[OF this] o r c show ?thesis
    by (simp add: list_all_iff)
qed

section \<open>The scan of the subclass\<close>

lemma scan_steps_err_Inr:
  "scan_steps_err fn a xs = Inr accs \<Longrightarrow> accs = scan_steps (\<lambda>a x. projr (fn a x)) a xs"
  by (induction xs arbitrary: a accs) (auto split: sum.splits)

lemma tf_scan_err_Inr:
  assumes "tf_scan_err fn es a0 = Inr r"
  shows "tf_scan (\<lambda>a x. projr (fn a x)) es a0 = Inr r"
proof -
  from assms obtain accs where a: "scan_steps_err fn a0 es = Inr accs"
    by (auto simp: tf_scan_err_def split: sum.splits)
  from scan_steps_err_Inr[OF a] have "scan_steps (\<lambda>a x. projr (fn a x)) a0 es = accs"
    by simp
  with assms a show ?thesis
    by (simp add: tf_scan_err_def tf_scan_def)
qed

lemma attn_build_rnn_inputs_length:
  "attn_build_rnn_inputs m k xs ents = Inr es \<Longrightarrow> length es = length xs \<and> length ents = length xs"
  by (auto simp: attn_build_rnn_inputs_def build_rnn_inputs_length split: sum.splits if_splits)

lemma attn_run_scan_elim:
  assumes "attn_run_scan m k g feed_init input_data input_entities = Inr (rnn_outputs, states)"
  obtains inputs a0 accs where
    "attn_build_rnn_inputs m k input_data input_entities = Inr inputs"
    "initializer m feed_init = Inr a0"
    "length accs = length input_data"
    "list_all (\<lambda>a. same_structure (snd a0) (snd a)) accs"
    "rnn_outputs = map fst accs"
    "flatten states = map (\<lambda>k. map (\<lambda>a. flatten (snd a) ! k) accs) [0..<length (flatten (snd a0))]"
    "same_structure (snd a0) states"
proof -
  from assms obtain inputs a0 where
    b: "attn_build_rnn_inputs m k input_data input_entities = Inr inputs" and
    i: "initializer m feed_init = Inr a0" and
    s: "tf_scan_err (\<lambda>a x. attn_cell k g x (snd a)) inputs a0 = Inr (rnn_outputs, states)"
    by (auto simp: attn_run_scan_def split: sum.splits)
  let ?fn = "\<lambda>a x. projr (attn_cell k g x (snd a))"
  let ?accs = "scan_steps ?fn a0 inputs"
  from tf_scan_err_Inr[OF s] have s': "tf_scan ?fn inputs a0 = Inr (rnn_outputs, states)" .
  have all: "list_all (\<lambda>a. same_structure (snd a0) (snd a)) ?accs"
    using s' tf_scan_Inl[of a0 ?fn inputs] by auto
  from tf_scan_Inr[OF all] s'
  have "rnn_outputs = map fst ?accs"
    "flatten states = map (\<lambda>k. map (\<lambda>a. flatten (snd a) ! k) ?accs) [0..<length (flatten (snd a0))]"
    "same_structure (snd a0) states"
    by auto
  moreover have "length ?accs = length input_data"
    using attn_build_rnn_inputs_length[OF b] by (simp add: length_scan_steps)
  ultimately show ?thesis using b i all by (intro that)
qed


lemma attn_outputs_length:
  assumes "attn_outputs m k g st inp ents iswrite = Inr outp"
  shows "length outp = length inp"
proof -
  from assms obtain rnn_outputs states where
    r: "attn_run_scan m k g st inp ents = Inr (rnn_outputs, states)" and
    f: "map_fn2 (cond_output m) (rnn_outputs, iswrite) = Inr outp"
    by (auto simp: attn_outputs_def split: sum.splits)
  from r have "length rnn_outputs = length inp"
    by (rule attn_run_scan_elim) simp
  with f show ?thesis by (simp add: map_fn2_Inr)
qed

lemma run_step_length:
  assumes "run_step m kgi st inp ent iswrite = Inr (st', outp)"
  shows "length outp = length inp"
  using assms
  by (auto simp: run_step_def outputs_length attn_outputs_length split: sum.splits option.splits)

lemma decode_loop_terminates:
  assumes "int (length acc) < n"
  shows "\<exists>y. decode_loop m kgi stops lexicon vocab (Some n) inp ent st acc = Some y"
  using assms
proof (induction "nat n - length acc" arbitrary: acc inp ent st rule: less_induct)
  case less
  show ?case
  proof (cases "run_step m kgi st inp ent [True]")
    case (Inl e)
    then show ?thesis by (subst decode_loop.simps) simp
  next
    case (Inr so)
    obtain st1 outp where so: "so = (st1, outp)" by (cases so)
    show ?thesis
    proof (cases "pred_of outp")
      case (Inl e)
      with Inr so show ?thesis by (subst decode_loop.simps) simp
    next
      case p: (Inr p)
      show ?thesis
      proof (cases "p \<in> set stops \<or> Some (int (length (acc @ [p]))) = Some n")
        case True
        with Inr so p show ?thesis by (subst decode_loop.simps) simp
      next
        case False
        show ?thesis
        proof (cases "update_entity kgi lexicon vocab (acc @ [p]) ent")
          case (Inl e)
          with Inr so p False show ?thesis by (subst decode_loop.simps) simp
        next
          case ue: (Inr ent')
          from False less.prems have lt: "int (length (acc @ [p])) < n" by simp
          then have "nat n - length (acc @ [p]) < nat n - length acc" by simp
          from less.hyps[OF this lt] obtain y where
            "decode_loop m kgi stops lexicon vocab (Some n) [p] ent' (Some st1) (acc @ [p]) = Some y"
            by blast
          with Inr so p False ue show ?thesis by (subst decode_loop.simps) simp
        qed
      qed
    qed
  qed
qed

section \<open>The scan carries the state\<close>




section \<open>The decoding loop\<close>

lemma decode_loop_sound:
  fixes m :: "'a::{linorder,zero,plus,times} model"
  assumes "decode_loop m kgi stops lexicon vocab ml inp ent st acc = Some y"
  shows "loop_post m kgi stops lexicon vocab ml inp ent st acc y"
proof (rule decode_loop.raw_induct[where P = loop_post, OF _ assms])
  fix f and m :: "'a model" and kgi :: "(('a, 'b, 'c, 'd, 'e) knowledge \<times> 'c) option"
    and stops lexicon vocab ml inp ent st acc y
  assume IH: "\<And>(m :: 'a model) (kgi :: (('a, 'b, 'c, 'd, 'e) knowledge \<times> 'c) option)
                stops lexicon vocab ml inp ent st acc y.
                f m kgi stops lexicon vocab ml inp ent st acc = Some y \<Longrightarrow>
                loop_post m kgi stops lexicon vocab ml inp ent st acc y"
    and body: "(case run_step m kgi st inp ent [True] of
        Inl e \<Rightarrow> Some (Inl e)
      | Inr (state', output) \<Rightarrow>
          (case pred_of output of
             Inl e \<Rightarrow> Some (Inl e)
           | Inr pred \<Rightarrow>
               if pred \<in> set stops \<or> Some (int (length (acc @ [pred]))) = ml
               then Some (Inr (acc @ [pred], state'))
               else (case update_entity kgi lexicon vocab (acc @ [pred]) ent of
                       Inl e \<Rightarrow> Some (Inl e)
                     | Inr entity' \<Rightarrow>
                         f m kgi stops lexicon vocab ml [pred] entity' (Some state')
                           (acc @ [pred])))) = Some y"
  show "loop_post m kgi stops lexicon vocab ml inp ent st acc y"
    unfolding loop_post_def
  proof (intro allI impI)
    fix tok preds st'
    assume inp: "inp = [tok]" and y: "y = Inr (preds, st')"
    show "\<exists>new. preds = acc @ new \<and> new \<noteq> []
              \<and> greedy_trace m kgi lexicon vocab tok ent st acc new
              \<and> (last new \<in> set stops \<or> Some (int (length preds)) = ml)
              \<and> (\<forall>k<length new - 1. new ! k \<notin> set stops \<and> Some (int (length acc + Suc k)) \<noteq> ml)"
    proof (cases "run_step m kgi st inp ent [True]")
      case (Inl e)
      with body y show ?thesis by simp
    next
      case (Inr so)
      obtain st1 outp where so: "so = (st1, outp)" by (cases so)
      note rs = Inr[unfolded so]
      show ?thesis
      proof (cases "pred_of outp")
        case (Inl e)
        with body y rs show ?thesis by simp
      next
        case pp: (Inr p)
        from run_step_length[OF rs] inp have "length outp = 1" by simp
        from pred_of_single[OF pp this] obtain logits where
          lg: "outp = [[logits]]" "0 \<le> p" "nat p < length logits" "list_all (\<lambda>x. x \<le> logits ! nat p) logits"
          by blast
        have gt: "\<And>ps. greedy_trace m kgi lexicon vocab tok ent st acc (p # ps) =
                    (ps = [] \<or>
                      (case update_entity kgi lexicon vocab (acc @ [p]) ent of
                         Inl e \<Rightarrow> False
                       | Inr ent' \<Rightarrow>
                           greedy_trace m kgi lexicon vocab p ent' (Some st1) (acc @ [p]) ps))"
          using rs lg inp by simp
        show ?thesis
        proof (cases "p \<in> set stops \<or> Some (int (length (acc @ [p]))) = ml")
          case True
          with body y rs pp have "preds = acc @ [p]" by simp
          with True gt show ?thesis
            by (intro exI[of _ "[p]"]) simp
        next
          case False
          show ?thesis
          proof (cases "update_entity kgi lexicon vocab (acc @ [p]) ent")
            case (Inl e)
            with body y rs pp False show ?thesis by simp
          next
            case ue: (Inr ent')
            with False body rs pp
            have "f m kgi stops lexicon vocab ml [p] ent' (Some st1) (acc @ [p]) = Some y" by simp
            from IH[OF this] y obtain new where new:
              "preds = (acc @ [p]) @ new" "new \<noteq> []"
              "greedy_trace m kgi lexicon vocab p ent' (Some st1) (acc @ [p]) new"
              "last new \<in> set stops \<or> Some (int (length preds)) = ml"
              "\<forall>k<length new - 1. new ! k \<notin> set stops \<and> Some (int (length (acc @ [p]) + Suc k)) \<noteq> ml"
              unfolding loop_post_def by blast
            have "\<forall>k<length (p # new) - 1. (p # new) ! k \<notin> set stops \<and> Some (int (length acc + Suc k)) \<noteq> ml"
            proof (intro allI impI)
              fix k assume k: "k < length (p # new) - 1"
              show "(p # new) ! k \<notin> set stops \<and> Some (int (length acc + Suc k)) \<noteq> ml"
              proof (cases k)
                case 0
                then show ?thesis using False by auto
              next
                case (Suc j)
                with k new(2) have "j < length new - 1" by (cases new) simp_all
                with new(5) Suc show ?thesis by simp
              qed
            qed
            moreover have "preds = acc @ (p # new)" using new(1) by simp
            moreover have "greedy_trace m kgi lexicon vocab tok ent st acc (p # new)"
              unfolding gt using new(3) ue by simp
            moreover have "last (p # new) \<in> set stops \<or> Some (int (length preds)) = ml"
              using new(2,4) by simp
            ultimately show ?thesis by blast
          qed
        qed
      qed
    qed
  qed
qed

lemma generate_Some_Inr:
  assumes "generate m kg kb inputs entities stops lexicon vocab ml init = Some (Inr (preds, st'))"
  obtains fed kgi state where
    "truth_value init = Inr fed"
    "load_kg kg kb = Inr kgi"
    "encode_inputs m kgi (if fed then init else None) inputs entities init = Inr state"
    "inputs \<noteq> []" "entities \<noteq> []"
    "decode_loop m kgi stops lexicon vocab ml [last inputs] [last entities] state []
       = Some (Inr (preds, st'))"
proof -
  from assms obtain fed where t: "truth_value init = Inr fed"
    by (cases "truth_value init") (simp_all add: generate_def)
  from assms t obtain kgi where l: "load_kg kg kb = Inr kgi"
    by (cases "load_kg kg kb") (simp_all add: generate_def)
  from assms t l obtain state where
    e: "encode_inputs m kgi (if fed then init else None) inputs entities init = Inr state"
    by (cases "encode_inputs m kgi (if fed then init else None) inputs entities init")
       (simp_all add: generate_def)
  from assms t l e have n: "inputs \<noteq> []" "entities \<noteq> []"
    by (auto simp: generate_def split: if_splits)
  with assms t l e
  have "decode_loop m kgi stops lexicon vocab ml [last inputs] [last entities] state []
          = Some (Inr (preds, st'))"
    by (simp add: generate_def)
  with t l e n show ?thesis by (rule that)
qed

lemma generate_post:
  fixes m :: "'a::{linorder,zero,plus,times} model"
  assumes "generate m kg kb inputs entities stops lexicon vocab ml init = Some (Inr (preds, st'))"
  obtains fed kgi state where
    "truth_value init = Inr fed"
    "load_kg kg kb = Inr kgi"
    "encode_inputs m kgi (if fed then init else None) inputs entities init = Inr state"
    "preds \<noteq> []"
    "greedy_trace m kgi lexicon vocab (last inputs) [last entities] state [] preds"
    "last preds \<in> set stops \<or> Some (int (length preds)) = ml"
    "\<forall>k<length preds - 1. preds ! k \<notin> set stops \<and> Some (int (Suc k)) \<noteq> ml"
proof -
  from assms obtain fed kgi state where
    t: "truth_value init = Inr fed" and
    l: "load_kg kg kb = Inr kgi" and
    e: "encode_inputs m kgi (if fed then init else None) inputs entities init = Inr state" and
    d: "decode_loop m kgi stops lexicon vocab ml [last inputs] [last entities] state []
          = Some (Inr (preds, st'))"
    by (rule generate_Some_Inr)
  from decode_loop_sound[OF d] have
    "preds \<noteq> [] \<and> greedy_trace m kgi lexicon vocab (last inputs) [last entities] state [] preds
      \<and> (last preds \<in> set stops \<or> Some (int (length preds)) = ml)
      \<and> (\<forall>k<length preds - 1. preds ! k \<notin> set stops \<and> Some (int (Suc k)) \<noteq> ml)"
    unfolding loop_post_def by simp
  with t l e show ?thesis by (intro that) blast+
qed

text \<open>
  Claim C4, as amended.  For every call of \<open>generate\<close>, on a receiver with or without
  a knowledge graph, with a maximum length \<open>max_len\<close> that is an integer and at least
  one, the call returns or raises; when it returns, the loop has stopped at the first
  token that is a stop symbol or brings the number of tokens to \<open>max_len\<close>, whichever
  came first, and the returned sequence has at most \<open>max_len\<close> tokens.
\<close>

theorem generate_terminates:
  fixes m :: "'a::{linorder,zero,plus,times} model"
  assumes "1 \<le> n"
  shows "\<exists>r. generate m kg kb inputs entities stop_symbols lexicon vocab (Some n) init_state = Some r
           \<and> (\<forall>preds state'. r = Inr (preds, state') \<longrightarrow>
                 int (length preds) \<le> n
                 \<and> (last preds \<in> set stop_symbols \<or> int (length preds) = n)
                 \<and> (\<forall>k<length preds - 1. preds ! k \<notin> set stop_symbols))"
proof -
  have "\<exists>r. generate m kg kb inputs entities stop_symbols lexicon vocab (Some n) init_state = Some r"
  proof (cases "truth_value init_state")
    case (Inl e)
    then show ?thesis by (simp add: generate_def)
  next
    case t: (Inr fed)
    show ?thesis
    proof (cases "load_kg kg kb")
      case (Inl e)
      with t show ?thesis by (simp add: generate_def)
    next
      case l: (Inr kgi)
      show ?thesis
      proof (cases "encode_inputs m kgi (if fed then init_state else None) inputs entities init_state")
        case (Inl e)
        with t l show ?thesis by (simp add: generate_def)
      next
        case (Inr state)
        have "int (length ([]::int list)) < n" using assms by simp
        from decode_loop_terminates[OF this, where m = m and kgi = kgi and stops = stop_symbols
            and lexicon = lexicon and vocab = vocab and inp = "[last inputs]"
            and ent = "[last entities]" and st = state]
        obtain y where
          "decode_loop m kgi stop_symbols lexicon vocab (Some n) [last inputs] [last entities] state []
             = Some y"
          by blast
        with t l Inr show ?thesis by (simp add: generate_def)
      qed
    qed
  qed
  then obtain r where
    r: "generate m kg kb inputs entities stop_symbols lexicon vocab (Some n) init_state = Some r"
    by blast
  have "int (length preds) \<le> n
          \<and> (last preds \<in> set stop_symbols \<or> int (length preds) = n)
          \<and> (\<forall>k<length preds - 1. preds ! k \<notin> set stop_symbols)"
    if "r = Inr (preds, state')" for preds state'
  proof -
    from r that
    have g: "generate m kg kb inputs entities stop_symbols lexicon vocab (Some n) init_state
               = Some (Inr (preds, state'))"
      by simp
    from g obtain
      ex: "last preds \<in> set stop_symbols \<or> Some (int (length preds)) = Some n" and
      first: "\<forall>k<length preds - 1. preds ! k \<notin> set stop_symbols \<and> Some (int (Suc k)) \<noteq> Some n"
      by (rule generate_post)
    have "int (length preds) \<le> n"
    proof (rule ccontr)
      assume "\<not> int (length preds) \<le> n"
      then have "nat n - 1 < length preds - 1" using assms by linarith
      with first have "Some (int (Suc (nat n - 1))) \<noteq> Some n" by blast
      then show False using assms by simp
    qed
    with ex first show ?thesis by simp
  qed
  with r show ?thesis by blast
qed

text \<open>
  Claim C7.  The tokens a call of \<open>generate\<close> returns, on a receiver with or without a
  knowledge graph, are a greedy trace from the last token of the prefix, the last
  entities and the state the priming left: every step is a session run with the write
  flag true, the token it emits is an entry of greatest score of the logits of the
  step, and it is the input of the next step, together with the state of the step and,
  for a receiver with a knowledge graph, the entities of the tokens emitted so far.
\<close>

theorem generate_greedy:
  fixes m :: "'a::{linorder,zero,plus,times} model"
  assumes "generate m kg kb inputs entities stop_symbols lexicon vocab max_len init_state
             = Some (Inr (preds, state'))"
  shows "\<exists>fed kgi state.
           truth_value init_state = Inr fed
           \<and> load_kg kg kb = Inr kgi
           \<and> encode_inputs m kgi (if fed then init_state else None) inputs entities init_state
               = Inr state
           \<and> greedy_trace m kgi lexicon vocab (last inputs) [last entities] state [] preds"
  using assms by (rule generate_post) blast

text \<open>
  Claim C9.  The sequence a call of \<open>generate\<close> returns, on a receiver with or without
  a knowledge graph, is not empty; the condition of the \<open>break\<close> holds of its last
  token, and no token before the last is a stop symbol: when the loop ends on a stop
  symbol, that symbol is the last element.
\<close>

theorem generate_nonempty:
  fixes m :: "'a::{linorder,zero,plus,times} model"
  assumes "generate m kg kb inputs entities stop_symbols lexicon vocab max_len init_state
             = Some (Inr (preds, state'))"
  shows "preds \<noteq> []
         \<and> (last preds \<in> set stop_symbols \<or> Some (int (length preds)) = max_len)
         \<and> (\<forall>k<length preds - 1. preds ! k \<notin> set stop_symbols)"
  using assms by (rule generate_post) blast


lemma stuck_step:
  "run_step stuck (None :: ((int, unit, unit, unit, unit) knowledge \<times> unit) option) None [0] []
     [True] = Inr (Leaf [[1]], [[[1]]])"
  "run_step stuck (None :: ((int, unit, unit, unit, unit) knowledge \<times> unit) option)
     (Some (Leaf [[1]])) [0] [] [True] = Inr (Leaf [[1]], [[[1]]])"
  "pred_of [[[1::int]]] = Inr 0"
  by code_simp+

lemma stuck_never_returns:
  fixes kgi :: "((int, unit, unit, unit, unit) knowledge \<times> unit) option"
    and lexicon :: unit and vocab :: "int \<Rightarrow> error + unit"
  assumes "decode_loop m kgi stops lexicon vocab ml inp ent st acc = Some y"
  shows "\<not> (m = stuck \<and> kgi = None \<and> stops = [1] \<and> ml = None \<and> inp = [0]
            \<and> (st = None \<or> st = Some (Leaf [[1]])))"
proof (rule decode_loop.raw_induct[where P = "\<lambda>m kgi stops lexicon vocab ml inp ent st acc y.
          \<not> (m = stuck \<and> kgi = None \<and> stops = [1] \<and> ml = None \<and> inp = [0]
            \<and> (st = None \<or> st = Some (Leaf [[1]])))", OF _ assms])
  fix f and m :: "int model" and kgi :: "((int, unit, unit, unit, unit) knowledge \<times> unit) option"
    and stops and lexicon :: unit and vocab :: "int \<Rightarrow> error + unit" and ml inp ent st acc y
  assume IH: "\<And>(m :: int model) (kgi :: ((int, unit, unit, unit, unit) knowledge \<times> unit) option)
                stops (lexicon :: unit) (vocab :: int \<Rightarrow> error + unit) ml inp ent st acc y.
                f m kgi stops lexicon vocab ml inp ent st acc = Some y \<Longrightarrow>
                \<not> (m = stuck \<and> kgi = None \<and> stops = [1] \<and> ml = None \<and> inp = [0]
                    \<and> (st = None \<or> st = Some (Leaf [[1]])))"
    and body: "(case run_step m kgi st inp ent [True] of
        Inl e \<Rightarrow> Some (Inl e)
      | Inr (state', output) \<Rightarrow>
          (case pred_of output of
             Inl e \<Rightarrow> Some (Inl e)
           | Inr pred \<Rightarrow>
               if pred \<in> set stops \<or> Some (int (length (acc @ [pred]))) = ml
               then Some (Inr (acc @ [pred], state'))
               else (case update_entity kgi lexicon vocab (acc @ [pred]) ent of
                       Inl e \<Rightarrow> Some (Inl e)
                     | Inr entity' \<Rightarrow>
                         f m kgi stops lexicon vocab ml [pred] entity' (Some state')
                           (acc @ [pred])))) = Some y"
  show "\<not> (m = stuck \<and> kgi = None \<and> stops = [1] \<and> ml = None \<and> inp = [0]
            \<and> (st = None \<or> st = Some (Leaf [[1]])))"
  proof
    assume a: "m = stuck \<and> kgi = None \<and> stops = [1] \<and> ml = None \<and> inp = [0]
            \<and> (st = None \<or> st = Some (Leaf [[1]]))"
    then have "run_step m kgi st inp ent [True] = run_step m kgi st inp [] [True]"
      by (simp add: run_step_def)
    with a have "run_step m kgi st inp ent [True] = Inr (Leaf [[1]], [[[1]]])"
      using stuck_step(1,2) by auto
    with body a have "f stuck None [1] lexicon vocab None [0] ent (Some (Leaf [[1]])) (acc @ [0]) = Some y"
      by (simp add: stuck_step(3) update_entity_def)
    from IH[OF this] show False by simp
  qed
qed

text \<open>
  Claim C4 as stated fails for the default \<open>max_len = None\<close>, where a model that never
  emits a stop symbol makes the loop run forever, and for \<open>max_len = 0\<close>, where the
  call returns five tokens.
\<close>

theorem generate_unbounded_counterexample:
  "generate stuck no_kg () [0] [[]] [1] () no_vocab None None = None
   \<and> generate toy no_kg () [0, 1] [[]] [2] () no_vocab (Some 0) None
       = Some (Inr ([0, 1, 1, 1, 2], Tuple [Leaf [[6]], Leaf [[6]]]))"
proof
  have "generate stuck no_kg () [0] [[]] [1] () no_vocab None None
          = decode_loop stuck (None :: ((int, unit, unit, unit, unit) knowledge \<times> unit) option)
              [1] () no_vocab None [0] [[]] None []"
    by (simp add: generate_def encode_inputs_def truth_value_def load_kg_def no_kg_def)
  moreover have "decode_loop stuck (None :: ((int, unit, unit, unit, unit) knowledge \<times> unit) option)
                   [1] () no_vocab None [0] [[]] None [] = None"
  proof (cases "decode_loop stuck (None :: ((int, unit, unit, unit, unit) knowledge \<times> unit) option)
                   [1] () no_vocab None [0] [[]] None []")
    case None
    then show ?thesis .
  next
    case (Some y)
    from stuck_never_returns[OF this] show ?thesis by simp
  qed
  ultimately show "generate stuck no_kg () [0] [[]] [1] () no_vocab None None = None" by simp
next
  show "generate toy no_kg () [0, 1] [[]] [2] () no_vocab (Some 0) None
       = Some (Inr ([0, 1, 1, 1, 2], Tuple [Leaf [[6]], Leaf [[6]]]))"
    by code_simp
qed

text \<open>
  The exceptions of the collaborators of a receiver with a knowledge graph are results
  of the call: of \<open>kg.load\<close>, of \<open>vocab.to_word\<close>, of a feed of entities that does not
  fit the placeholder, and of a scan over tokens and entities of different lengths.
\<close>

lemma generate_kg_raises:
  "generate toy (Some (toy_kg\<lparr>load := (\<lambda>kb. Inl ValueError)\<rparr>)) 0 [0] [[0]] [2] () toy_to_word
     None None = Some (Inl ValueError)"
  "generate toy (Some toy_kg) 0 [0] [[0]] [2] () (\<lambda>p. Inl IndexError :: error + int) None None
     = Some (Inl IndexError)"
  "generate toy (Some toy_kg) 0 [0, 1] [[0], [1, 1]] [2] () toy_to_word None None
     = Some (Inl ValueError)"
  "generate toy (Some toy_kg) 0 [0, 1] [[0]] [2] () toy_to_word None None
     = Some (Inl InvalidArgumentError)"
  by code_simp+

theorem generate_terminates_witness:
  "(1::int) \<le> 4
   \<and> generate toy (Some toy_kg) 0 [0] [[0]] [2] () toy_to_word (Some 4) None
       = Some (Inr ([0, 0, 1, 1], Tuple [Leaf [[5]], Leaf [[5]]]))
   \<and> (\<exists>r. generate toy (Some toy_kg) 0 [0] [[0]] [2] () toy_to_word (Some 4) None = Some r
        \<and> (\<forall>preds state'. r = Inr (preds, state') \<longrightarrow>
              int (length preds) \<le> 4
              \<and> (last preds \<in> set [2] \<or> int (length preds) = 4)
              \<and> (\<forall>k<length preds - 1. preds ! k \<notin> set [2])))"
proof -
  have "generate toy (Some toy_kg) 0 [0] [[0]] [2] () toy_to_word (Some 4) None
       = Some (Inr ([0, 0, 1, 1], Tuple [Leaf [[5]], Leaf [[5]]]))"
    by code_simp
  with generate_terminates[of 4 toy "Some toy_kg" 0 "[0]" "[[0]]" "[2]" "()" toy_to_word None]
  show ?thesis by simp
qed

theorem generate_greedy_witness:
  "generate toy (Some toy_kg) 0 [0] [[0]] [2] () toy_to_word None None
     = Some (Inr ([0, 0, 1, 1, 2], Tuple [Leaf [[7]], Leaf [[7]]]))
   \<and> greedy_trace toy (Some (toy_kg, 0)) () toy_to_word 0 [[0]] None [] [0, 0, 1, 1, 2]"
proof -
  have g: "generate toy (Some toy_kg) 0 [0] [[0]] [2] () toy_to_word None None
     = Some (Inr ([0, 0, 1, 1, 2], Tuple [Leaf [[7]], Leaf [[7]]]))"
    by code_simp
  from generate_greedy[OF g] obtain fed kgi state where
    "truth_value (None :: real matrix nest option) = Inr fed"
    "load_kg (Some toy_kg) (0::real) = Inr kgi"
    "encode_inputs toy kgi (if fed then None else None) [0] [[0]] None = Inr state"
    "greedy_trace toy kgi () toy_to_word (last [0]) [last [[0]]] state [] [0, 0, 1, 1, 2]"
    by blast
  then have "greedy_trace toy (Some (toy_kg, 0)) () toy_to_word 0 [[0]] None [] [0, 0, 1, 1, 2]"
    by (auto simp: load_kg_def toy_kg_def encode_inputs_def)
  with g show ?thesis by simp
qed

theorem generate_nonempty_witness:
  "generate toy (Some toy_kg) 0 [0, 1, 2] [[0], [1], [1]] [2] () toy_to_word (Some 3) None
     = Some (Inr ([1, 2], Tuple [Leaf [[7]], Leaf [[7]]]))
   \<and> [1, 2] \<noteq> ([]::int list)
   \<and> (last [1, 2] \<in> set [2::int] \<or> Some (int (length [1, 2::int])) = Some 3)
   \<and> [1, 2::int] ! 0 \<notin> set [2]"
proof -
  have g: "generate toy (Some toy_kg) 0 [0, 1, 2] [[0], [1], [1]] [2] () toy_to_word (Some 3) None
     = Some (Inr ([1, 2], Tuple [Leaf [[7]], Leaf [[7]]]))"
    by code_simp
  from generate_nonempty[OF g] have "[1, 2] \<noteq> ([]::int list)"
    "last [1, 2] \<in> set [2::int] \<or> Some (int (length [1, 2::int])) = Some 3"
    "\<forall>k<length [1, 2::int] - 1. [1, 2::int] ! k \<notin> set [2]"
    by blast+
  then have "[1, 2::int] ! 0 \<notin> set [2]"
    by simp
  with g \<open>last [1, 2] \<in> set [2::int] \<or> Some (int (length [1, 2::int])) = Some 3\<close>
  show ?thesis by simp
qed


text \<open>
  Claim C5 at a model whose state is one tensor of two entries, as the state of a simple
  recurrent or GRU cell of size two: the final state of the first part is an array of
  more than one element, \<open>if init_state:\<close> raises \<open>ValueError\<close> on it, and the call on
  the second part raises where the call on the whole prefix returns.
\<close>

theorem generate_continuity_array_state:
  "final_state plain None [0] = Inr (Leaf [[1, 0]])
   \<and> generate plain no_kg () [1] [[]] [1] () no_vocab (Some 2) (Some (Leaf [[1, 0]]))
       = Some (Inl ValueError)
   \<and> generate plain no_kg () [0, 1] [[], []] [1] () no_vocab (Some 2) None
       = Some (Inr ([1], Leaf [[0, 1]]))"
  by code_simp

section \<open>Continuing from a carried state\<close>

lemma scan_steps_fst:
  "scan_steps (\<lambda>a x. cell m x (snd a)) (o1, s) es = scan_steps (\<lambda>a x. cell m x (snd a)) (o2, s) es"
  by (cases es) simp_all

lemma build_rnn_inputs_append:
  "build_rnn_inputs m (xs @ ys) =
     (case build_rnn_inputs m xs of Inl e \<Rightarrow> Inl e
      | Inr us \<Rightarrow> (case build_rnn_inputs m ys of Inl e \<Rightarrow> Inl e | Inr vs \<Rightarrow> Inr (us @ vs)))"
  unfolding build_rnn_inputs_def by (rule map_err_append)

text \<open>The final state of a run, from the accumulators of the scan.\<close>

lemma final_state_accs:
  assumes b: "build_rnn_inputs m xs = Inr es" and i: "initializer m feed = Inr a0"
  shows "final_state m feed xs =
           (if \<not> list_all (\<lambda>a. same_structure (snd a0) (snd a)) (scan_steps (\<lambda>a x. cell m x (snd a)) a0 es)
            then Inl ValueError
            else if flatten (snd a0) = [] then Inl IndexError
            else if es = [] then Inl InvalidArgumentError
            else Inr (snd (last (scan_steps (\<lambda>a x. cell m x (snd a)) a0 es))))"
proof (cases "list_all (\<lambda>a. same_structure (snd a0) (snd a)) (scan_steps (\<lambda>a x. cell m x (snd a)) a0 es)")
  case False
  then show ?thesis
    using b i tf_scan_Inl[OF False] by (simp add: final_state_def run_scan_def)
next
  case True
  let ?accs = "scan_steps (\<lambda>a x. cell m x (snd a)) a0 es"
  from tf_scan_Inr[OF True] obtain states where
    s: "tf_scan (\<lambda>a x. cell m x (snd a)) es a0 = Inr (map fst ?accs, states)" and
    flat: "flatten states = map (\<lambda>k. map (\<lambda>a. flatten (snd a) ! k) ?accs) [0..<length (flatten (snd a0))]" and
    str: "same_structure (snd a0) states"
    by blast
  have "final_state m feed xs = get_final_state states"
    using b i s by (simp add: final_state_def run_scan_def)
  also have "\<dots> = (if length (flatten (snd a0)) = 0 then Inl IndexError
            else if ?accs = [] then Inl InvalidArgumentError
            else Inr (snd (last ?accs)))"
    using flat refl str True by (rule get_final_state_stacked)
  also have "(?accs = []) = (es = [])"
    using length_scan_steps[of "\<lambda>a x. cell m x (snd a)" a0 es] by (metis length_0_conv)
  finally show ?thesis using True by simp
qed

lemma final_state_continues:
  assumes A: "final_state m None first = Inr state" and C: "rest \<noteq> []"
  shows "final_state m (Some state) rest = final_state m None (first @ rest)"
proof -
  let ?fn = "\<lambda>a x. cell m x (snd a)"
  let ?a0 = "(zeros batch_size (output_size m), self_init_state m)"
  have i0: "initializer m None = Inr ?a0" by (simp add: initializer_def)
  from A obtain esA where bA: "build_rnn_inputs m first = Inr esA"
    by (auto simp: final_state_def run_scan_def split: sum.splits)
  let ?accsA = "scan_steps ?fn ?a0 esA"
  from A final_state_accs[OF bA i0] have
    allA: "list_all (\<lambda>a. same_structure (self_init_state m) (snd a)) ?accsA" and
    neA: "esA \<noteq> []" and leaves: "flatten (self_init_state m) \<noteq> []" and
    sA: "state = snd (last ?accsA)"
    by (auto split: if_splits)
  have accs_ne: "?accsA \<noteq> []"
    using neA length_scan_steps[of ?fn ?a0 esA] by (metis length_0_conv)
  have strA: "same_structure (self_init_state m) state"
    using allA accs_ne sA by (simp add: list_all_iff)
  have i1: "initializer m (Some state) = Inr (zeros batch_size (output_size m), state)"
    using strA by (simp add: initializer_def)
  show ?thesis
  proof (cases "build_rnn_inputs m rest")
    case (Inl e)
    then show ?thesis
      using bA by (simp add: final_state_def run_scan_def build_rnn_inputs_append)
  next
    case (Inr esC)
    have neC: "esC \<noteq> []"
      using build_rnn_inputs_length[OF Inr] C by auto
    have bAC: "build_rnn_inputs m (first @ rest) = Inr (esA @ esC)"
      using bA Inr by (simp add: build_rnn_inputs_append)
    let ?accsC = "scan_steps ?fn (zeros batch_size (output_size m), state) esC"
    have fold: "foldl ?fn ?a0 esA = last ?accsA"
      using neA by (simp add: last_scan_steps)
    have "scan_steps ?fn (foldl ?fn ?a0 esA) esC = ?accsC"
      unfolding fold using sA scan_steps_fst[of m "fst (last ?accsA)" state esC] by simp
    then have accsAC: "scan_steps ?fn ?a0 (esA @ esC) = ?accsA @ ?accsC"
      by (simp add: scan_steps_append)
    have accsC_ne: "?accsC \<noteq> []"
      using neC length_scan_steps[of ?fn "(zeros batch_size (output_size m), state)" esC]
      by (metis length_0_conv)
    have same: "\<And>x. same_structure state x = same_structure (self_init_state m) x"
      using strA by (auto simp: same_structure_def)
    have leaves': "(flatten state = []) = (flatten (self_init_state m) = [])"
      using same_structure_length[OF strA] by (metis length_0_conv)
    have L: "final_state m (Some state) rest =
           (if \<not> list_all (\<lambda>a. same_structure state (snd a)) ?accsC then Inl ValueError
            else if flatten state = [] then Inl IndexError
            else if esC = [] then Inl InvalidArgumentError
            else Inr (snd (last ?accsC)))"
      using final_state_accs[OF Inr i1] by simp
    have R: "final_state m None (first @ rest) =
           (if \<not> list_all (\<lambda>a. same_structure (self_init_state m) (snd a)) (?accsA @ ?accsC)
            then Inl ValueError
            else if flatten (self_init_state m) = [] then Inl IndexError
            else if esA @ esC = [] then Inl InvalidArgumentError
            else Inr (snd (last (?accsA @ ?accsC))))"
      using final_state_accs[OF bAC i0] by (simp only: accsAC snd_conv)
    show ?thesis
      unfolding L R using allA accsC_ne neC leaves by (simp add: same leaves')
  qed
qed

text \<open>
  For a receiver without a knowledge graph and a state whose truth value is true (a
  tuple of tensors, as an LSTM state is), the call on the second part with the final
  state of the first part is the call on the whole prefix, when both are given the same
  last entities.
\<close>

lemma generate_continuity_truthy:
  fixes m :: "'a::{zero,plus,times,ord} model"
    and kg :: "('a, 'kb, 'g, 'w, 'l) knowledge option"
  assumes K: "kg = None"
    and A: "final_state m None first = Inr state"
    and T: "truth_value (Some state) = Inr True"
    and B: "second \<noteq> []" and E2: "entities2 \<noteq> []" and E: "entities \<noteq> []"
    and L: "last entities2 = last entities"
  shows "generate m kg kb second entities2 stop_symbols lexicon vocab max_len (Some state)
           = generate m kg kb (first @ second) entities stop_symbols lexicon vocab max_len None"
proof -
  let ?kgi = "None :: (('a, 'kb, 'g, 'w, 'l) knowledge \<times> 'g) option"
  from A obtain ro st where r: "run_scan m None first = Inr (ro, st)"
    by (auto simp: final_state_def split: sum.splits)
  from final_state_run_scan[OF r] A have neA: "first \<noteq> []"
    by (auto split: if_splits)
  have len: "1 < length (first @ second)"
    using neA B by (cases first; cases second) simp_all
  have bl: "butlast (first @ second) = first @ butlast second"
    using B by (simp add: butlast_append)
  have enc: "encode_inputs m ?kgi (Some state) second entities2 (Some state)
          = encode_inputs m ?kgi None (first @ second) entities None"
  proof (cases "1 < length second")
    case True
    then have "butlast second \<noteq> []" by (cases second) auto
    from final_state_continues[OF A this] True len show ?thesis
      by (simp add: encode_inputs_def run_final_state_def bl)
  next
    case False
    then have "butlast second = []" using B by (cases second) auto
    with False len A show ?thesis
      by (simp add: encode_inputs_def run_final_state_def bl)
  qed
  have lk: "load_kg kg kb = Inr ?kgi"
    using K by (simp add: load_kg_def)
  have tn: "truth_value (None :: 'a matrix nest option) = Inr False"
    by (simp add: truth_value_def)
  have "generate m kg kb second entities2 stop_symbols lexicon vocab max_len (Some state)
          = (case encode_inputs m ?kgi (Some state) second entities2 (Some state) of
               Inl e \<Rightarrow> Some (Inl e)
             | Inr st \<Rightarrow> decode_loop m ?kgi stop_symbols lexicon vocab max_len [last second]
                          [last entities] st [])"
    unfolding generate_def T lk using B E2 L by (simp split: sum.splits)
  moreover
  have "generate m kg kb (first @ second) entities stop_symbols lexicon vocab max_len None
          = (case encode_inputs m ?kgi None (first @ second) entities None of
               Inl e \<Rightarrow> Some (Inl e)
             | Inr st \<Rightarrow> decode_loop m ?kgi stop_symbols lexicon vocab max_len [last second]
                          [last entities] st [])"
    unfolding generate_def tn lk using B E by (simp split: sum.splits)
  ultimately show ?thesis
    unfolding enc by simp
qed

section \<open>\<open>time_major\<close> is its own inverse\<close>

lemma offset_Cons: "offset (d # ds) (i # is) = i * prod_list ds + offset ds is"
  by (simp add: offset_def)

lemma offset_Nil: "offset [] [] = 0"
  by (simp add: offset_def)

lemma concat_blocks:
  "concat (map (\<lambda>i. map (\<lambda>k. i * P + k) [0..<P]) [0..<d]) = [0..<d * P]"
proof (induction d)
  case 0
  show ?case by simp
next
  case (Suc d)
  have "map (\<lambda>k. d * P + k) [0..<P] = [d * P..<d * P + P]"
    using map_add_upt[of "d * P" P] by (simp add: add.commute)
  then show ?case
    using Suc upt_add_eq_append[of 0 "d * P" P] by (simp add: add.commute)
qed

lemma offset_indices: "map (offset shp) (indices shp) = [0..<prod_list shp]"
proof (induction shp)
  case Nil
  show ?case by (simp add: offset_Nil)
next
  case (Cons d ds)
  have "map (offset (d # ds)) (indices (d # ds))
          = concat (map (\<lambda>i. map (\<lambda>k. i * prod_list ds + k) (map (offset ds) (indices ds))) [0..<d])"
    by (simp add: map_concat comp_def offset_Cons)
  also have "\<dots> = [0..<d * prod_list ds]"
    unfolding Cons.IH by (rule concat_blocks)
  finally show ?case by simp
qed

lemma length_indices: "length (indices shp) = prod_list shp"
  using arg_cong[OF offset_indices, of length shp] by simp

lemma indices_nth_offset:
  assumes "j \<in> set (indices shp)"
  shows "offset shp j < prod_list shp \<and> indices shp ! offset shp j = j"
proof -
  from assms obtain k where k: "k < length (indices shp)" "indices shp ! k = j"
    by (auto simp: in_set_conv_nth)
  have "map (offset shp) (indices shp) ! k = [0..<prod_list shp] ! k"
    by (simp only: offset_indices)
  then have "offset shp j = k"
    using k by (simp add: length_indices)
  then show ?thesis using k by (simp add: length_indices)
qed

lemma set_indices_Cons:
  "set (indices (d # ds)) = {i # is | i is. i < d \<and> is \<in> set (indices ds)}"
  by auto

lemma indices_length: "j \<in> set (indices shp) \<Longrightarrow> length j = length shp"
  by (induction shp arbitrary: j) auto

lemma map_nth_from: "map ((!) xs) [k..<length xs] = drop k xs"
  by (auto intro!: nth_equalityI)

lemma sort_time_major_perm:
  assumes "2 \<le> n"
  shows "sort ([1, 0] @ [2..<n]) = [0..<n]"
proof -
  have "sort [2..<n] = [2..<n]" by (simp add: sorted_sort_id)
  then have "sort ([1, 0] @ [2..<n]) = insort 1 (insort 0 [2..<n])" by simp
  also have "insort 0 [2..<n] = 0 # [2..<n]" by (simp add: insort_is_Cons)
  also have "insort 1 (0 # [2..<n]) = 0 # 1 # [2..<n]" by (simp add: insort_is_Cons)
  finally have "sort ([1, 0] @ [2..<n]) = 0 # 1 # [2..<n]" .
  moreover have "[0..<n] = 0 # [Suc 0..<n]"
    using assms by (intro upt_conv_Cons) simp
  moreover have "[Suc 0..<n] = Suc 0 # [Suc (Suc 0)..<n]"
    using assms by (intro upt_conv_Cons) simp
  ultimately show ?thesis by (simp add: numeral_2_eq_2)
qed

lemma length_strides: "length (strides r) = length r"
  by (induction r) simp_all

text \<open>The transposition of the first two axes, on a tensor of shape \<open>s0 # s1 # r\<close>.\<close>

lemma time_major_offset:
  assumes "length jr = length r"
  shows "sum_list (map2 (\<lambda>jk p. jk * strides (s0 # s1 # r) ! p) (j1 # j0 # jr)
                    ([1, 0] @ [2..<length (s0 # s1 # r)]))
           = offset (s0 # s1 # r) (j0 # j1 # jr)"
proof -
  have l: "length [2..<length (s0 # s1 # r)] = length r"
    unfolding length_upt by (simp del: One_nat_def)
  have "map2 (\<lambda>jk p. jk * strides (s0 # s1 # r) ! p) jr [2..<length (s0 # s1 # r)]
          = map2 (*) jr (strides r)"
  proof (rule nth_equalityI)
    show "length (map2 (\<lambda>jk p. jk * strides (s0 # s1 # r) ! p) jr [2..<length (s0 # s1 # r)])
            = length (map2 (*) jr (strides r))"
      by (simp only: length_map length_zip l assms length_strides)
  next
    fix i
    assume "i < length (map2 (\<lambda>jk p. jk * strides (s0 # s1 # r) ! p) jr [2..<length (s0 # s1 # r)])"
    then have i: "i < length r" by (simp only: length_map length_zip l assms min.idem)
    have "strides (s0 # s1 # r) ! (2 + i) = strides r ! i"
      by (simp add: numeral_2_eq_2)
    moreover have "[2..<length (s0 # s1 # r)] ! i = 2 + i"
      using i by (simp del: upt_Suc)
    ultimately show "map2 (\<lambda>jk p. jk * strides (s0 # s1 # r) ! p) jr [2..<length (s0 # s1 # r)] ! i
            = map2 (*) jr (strides r) ! i"
      using i assms l by (simp add: length_strides del: upt_Suc)
  qed
  then have "sum_list (map2 (\<lambda>jk p. jk * strides (s0 # s1 # r) ! p) (j1 # j0 # jr)
                    ([1, 0] @ [2..<length (s0 # s1 # r)]))
         = j1 * prod_list r + (j0 * (s1 * prod_list r) + sum_list (map2 (*) jr (strides r)))"
    by (simp del: upt_Suc)
  then show ?thesis
    by (simp add: offset_def)
qed

lemma time_major_Inr:
  assumes "shape a = s0 # s1 # r"
  shows "time_major a (length (shape a))
           = Inr \<lparr>shape = s1 # s0 # r,
                  entries = map (\<lambda>j. entries a ! offset (s0 # s1 # r) (hd (tl j) # hd j # tl (tl j)))
                              (indices (s1 # s0 # r))\<rparr>"
proof -
  let ?n = "length (shape a)"
  have n: "2 \<le> ?n" using assms by simp
  have shp: "map (\<lambda>p. shape a ! p) ([1, 0] @ [2..<?n]) = s1 # s0 # r"
    using map_nth_from[of "shape a" 2] assms by simp
  have "map (\<lambda>j. entries a ! sum_list (map2 (\<lambda>jk p. jk * strides (shape a) ! p) j ([1, 0] @ [2..<?n])))
          (indices (s1 # s0 # r))
        = map (\<lambda>j. entries a ! offset (s0 # s1 # r) (hd (tl j) # hd j # tl (tl j))) (indices (s1 # s0 # r))"
  proof (rule map_cong[OF refl])
    fix j assume "j \<in> set (indices (s1 # s0 # r))"
    then obtain j1 j0 jr where j: "j = j1 # j0 # jr" "jr \<in> set (indices r)"
      unfolding set_indices_Cons by blast
    from indices_length[OF j(2)] have "length jr = length r" .
    from time_major_offset[OF this, of s0 s1 j1 j0] j assms
    show "entries a ! sum_list (map2 (\<lambda>jk p. jk * strides (shape a) ! p) j ([1, 0] @ [2..<?n]))
            = entries a ! offset (s0 # s1 # r) (hd (tl j) # hd j # tl (tl j))"
      by simp
  qed
  then show ?thesis
    unfolding time_major_def tf_transpose_def using sort_time_major_perm[OF n] shp by simp
qed

text \<open>
  On a tensor whose first axis has size one, as every batch here has, \<open>time_major\<close>
  leaves the elements in place: the time-major tensor is the list of the slices of the
  single row.
\<close>

lemma time_major_batch_one:
  assumes "wf_tensor a" and "shape a = 1 # n # r"
  shows "time_major a (length (shape a)) = Inr \<lparr>shape = n # 1 # r, entries = entries a\<rparr>"
proof -
  have "map (\<lambda>j. entries a ! offset (1 # n # r) (hd (tl j) # hd j # tl (tl j))) (indices (n # 1 # r))
          = map (\<lambda>j. entries a ! offset (n # 1 # r) j) (indices (n # 1 # r))"
  proof (rule map_cong[OF refl])
    fix j assume "j \<in> set (indices (n # 1 # r))"
    then obtain j0 jr where j: "j = j0 # 0 # jr"
      unfolding set_indices_Cons by auto
    have "offset (1 # n # r) (0 # j0 # jr) = offset (n # 1 # r) (j0 # 0 # jr)"
      by (simp add: offset_Cons)
    then show "entries a ! offset (1 # n # r) (hd (tl j) # hd j # tl (tl j))
                 = entries a ! offset (n # 1 # r) j"
      unfolding j by (simp only: list.sel)
  qed
  also have "\<dots> = map ((!) (entries a)) (map (offset (n # 1 # r)) (indices (n # 1 # r)))"
    by (simp only: map_map comp_def)
  also have "\<dots> = entries a"
  proof -
    have "prod_list (n # 1 # r) = length (entries a)"
      using assms by (simp add: wf_tensor_def)
    then show ?thesis
      by (simp only: offset_indices map_nth)
  qed
  finally have e: "map (\<lambda>j. entries a ! offset (1 # n # r) (hd (tl j) # hd j # tl (tl j)))
                     (indices (n # 1 # r)) = entries a" .
  have "time_major a (length (shape a))
          = Inr \<lparr>shape = n # 1 # r,
                 entries = map (\<lambda>j. entries a ! offset (1 # n # r) (hd (tl j) # hd j # tl (tl j)))
                             (indices (n # 1 # r))\<rparr>"
    using assms(2) by (rule time_major_Inr)
  then show ?thesis by (simp only: e)
qed

text \<open>
  Claim C10.  For every tensor of rank at least two, \<open>time_major\<close> with the rank of the
  tensor swaps the first two axes and keeps the others, and applying it twice gives the
  tensor back.
\<close>

theorem time_major_involution:
  assumes "wf_tensor a" and "2 \<le> length (shape a)"
  shows "\<exists>b. time_major a (length (shape a)) = Inr b
           \<and> shape b = shape a ! 1 # shape a ! 0 # drop 2 (shape a)
           \<and> time_major b (length (shape a)) = Inr a"
proof -
  from assms(2) obtain s0 s1 r where s: "shape a = s0 # s1 # r"
    by (cases "shape a"; cases "tl (shape a)") auto
  let ?f = "\<lambda>j. entries a ! offset (s0 # s1 # r) (hd (tl j) # hd j # tl (tl j))"
  let ?b = "\<lparr>shape = s1 # s0 # r, entries = map ?f (indices (s1 # s0 # r))\<rparr>"
  have b: "time_major a (length (shape a)) = Inr ?b"
    using s by (rule time_major_Inr)
  have sb: "shape ?b = s1 # s0 # r" by simp
  have eb: "entries ?b = map ?f (indices (s1 # s0 # r))" by simp
  have "map (\<lambda>j. entries ?b ! offset (s1 # s0 # r) (hd (tl j) # hd j # tl (tl j))) (indices (s0 # s1 # r))
          = map (\<lambda>j. entries a ! offset (s0 # s1 # r) j) (indices (s0 # s1 # r))"
  proof (rule map_cong[OF refl])
    fix j assume "j \<in> set (indices (s0 # s1 # r))"
    then obtain j0 j1 jr where j: "j = j0 # j1 # jr" "j0 < s0" "j1 < s1" "jr \<in> set (indices r)"
      unfolding set_indices_Cons by blast
    then have "j1 # j0 # jr \<in> set (indices (s1 # s0 # r))"
      unfolding set_indices_Cons by blast
    from indices_nth_offset[OF this]
    have lt: "offset (s1 # s0 # r) (j1 # j0 # jr) < length (indices (s1 # s0 # r))"
      and nth: "indices (s1 # s0 # r) ! offset (s1 # s0 # r) (j1 # j0 # jr) = j1 # j0 # jr"
      by (simp_all only: length_indices)
    have "entries ?b ! offset (s1 # s0 # r) (j1 # j0 # jr) = ?f (j1 # j0 # jr)"
      unfolding eb using lt by (simp only: nth_map nth)
    then show "entries ?b ! offset (s1 # s0 # r) (hd (tl j) # hd j # tl (tl j))
            = entries a ! offset (s0 # s1 # r) j"
      unfolding j(1) by (simp only: list.sel)
  qed
  also have "\<dots> = map ((!) (entries a)) (map (offset (s0 # s1 # r)) (indices (s0 # s1 # r)))"
    by (simp only: map_map comp_def)
  also have "\<dots> = entries a"
  proof -
    have "prod_list (s0 # s1 # r) = length (entries a)"
      using assms(1) s by (simp add: wf_tensor_def)
    then show ?thesis
      by (simp only: offset_indices map_nth)
  qed
  finally have e: "map (\<lambda>j. entries ?b ! offset (s1 # s0 # r) (hd (tl j) # hd j # tl (tl j)))
                     (indices (s0 # s1 # r)) = entries a" .
  have "time_major ?b (length (shape ?b))
          = Inr \<lparr>shape = s0 # s1 # r,
                 entries = map (\<lambda>j. entries ?b ! offset (s1 # s0 # r) (hd (tl j) # hd j # tl (tl j)))
                             (indices (s0 # s1 # r))\<rparr>"
    using sb by (rule time_major_Inr)
  then have "time_major ?b (length (shape ?b)) = Inr \<lparr>shape = s0 # s1 # r, entries = entries a\<rparr>"
    by (simp only: e)
  moreover have "\<lparr>shape = s0 # s1 # r, entries = entries a\<rparr> = a"
    using s by simp
  moreover have "length (shape ?b) = length (shape a)"
    using s by simp
  ultimately have "time_major ?b (length (shape a)) = Inr a"
    by (simp only:)
  moreover have "shape ?b = shape a ! 1 # shape a ! 0 # drop 2 (shape a)"
    using s by simp
  ultimately show ?thesis using b by blast
qed

theorem time_major_involution_witness:
  "wf_tensor \<lparr>shape = [2, 3], entries = [1, 2, 3, 4, 5, 6 :: int]\<rparr>
   \<and> 2 \<le> length (shape \<lparr>shape = [2, 3], entries = [1, 2, 3, 4, 5, 6 :: int]\<rparr>)
   \<and> time_major \<lparr>shape = [2, 3], entries = [1, 2, 3, 4, 5, 6 :: int]\<rparr> 2
        = Inr \<lparr>shape = [3, 2], entries = [1, 4, 2, 5, 3, 6]\<rparr>
   \<and> time_major \<lparr>shape = [3, 2], entries = [1, 4, 2, 5, 3, 6 :: int]\<rparr> 2
        = Inr \<lparr>shape = [2, 3], entries = [1, 2, 3, 4, 5, 6]\<rparr>"
proof -
  let ?a = "\<lparr>shape = [2, 3], entries = [1, 2, 3, 4, 5, 6 :: int]\<rparr>"
  have w: "wf_tensor ?a" by (simp add: wf_tensor_def)
  have r: "2 \<le> length (shape ?a)" by simp
  have t: "time_major ?a 2 = Inr \<lparr>shape = [3, 2], entries = [1, 4, 2, 5, 3, 6]\<rparr>"
    by code_simp
  have n: "length (shape ?a) = 2" by simp
  from time_major_involution[OF w r] obtain b where
    "time_major ?a 2 = Inr b" "time_major b 2 = Inr ?a"
    unfolding n by blast
  with t have "time_major \<lparr>shape = [3, 2], entries = [1, 4, 2, 5, 3, 6 :: int]\<rparr> 2 = Inr ?a"
    by (simp only: sum.inject)
  with w r t show ?thesis by simp
qed

end
